theory Spec2Isabelle
  imports Complex_Main
begin

section \<open>Grid-world MDP solvers: value iteration and policy iteration\<close>

text \<open>
  A shallow embedding of \<^verbatim>\<open>Maze.py\<close> and \<^verbatim>\<open>Algorithms.py\<close>.

  Python floats are idealised as real numbers (so \<^verbatim>\<open>0.8\<close> is \<open>8/10\<close>); Python
  exceptions are values \<open>Inl e\<close> of a sum type; a \<^verbatim>\<open>while\<close> loop that may run forever
  is a \<^theory_text>\<open>partial_function\<close> into \<open>option\<close>, where \<open>None\<close> means that the loop never
  returns. The nested dictionary \<^verbatim>\<open>mdp.states\<close> is an association list, because the
  solvers iterate over it in insertion order; the utility, policy and history
  dictionaries are only read and written by key and are finite maps.

  Real numbers have no \<^verbatim>\<open>-inf\<close> and no NaN, and no sum of them overflows. What the solvers
  do with such values is the subject of a second embedding of \<^verbatim>\<open>Algorithms.py\<close>, on a type
  of Python floats with the infinities, NaN and overflow; the properties of the returned
  policy are stated and proved for that one.
\<close>

subsection \<open>Errors and Python containers\<close>

datatype error =
    IndexError
  | KeyError
  | TypeError
  | ZeroDivisionError
  | NonFiniteFloat
    \<comment> \<open>not a Python exception: the source goes on with the float \<^verbatim>\<open>-inf\<close> or \<^verbatim>\<open>nan\<close>,
        which the real numbers do not have; the embedding on floats never gives it\<close>

text \<open>\<^verbatim>\<open>xs[i]\<close> on a list: a negative index counts from the end.\<close>

definition py_index :: "'a list \<Rightarrow> int \<Rightarrow> error + 'a" where
  "py_index xs i =
     (if 0 \<le> i \<and> i < int (length xs) then Inr (xs ! nat i)
      else if - int (length xs) \<le> i \<and> i < 0 then Inr (xs ! nat (i + int (length xs)))
      else Inl IndexError)"

text \<open>A dictionary that is iterated over: an association list, keys in insertion order.\<close>

definition keys :: "('k \<times> 'v) list \<Rightarrow> 'k list" where
  "keys d = map fst d"

text \<open>\<^verbatim>\<open>d[k]\<close> on such a dictionary, and on a finite map.\<close>

definition getitem :: "('k \<times> 'v) list \<Rightarrow> 'k \<Rightarrow> error + 'v" where
  "getitem d k = (case map_of d k of None \<Rightarrow> Inl KeyError | Some v \<Rightarrow> Inr v)"

definition lookup :: "('k \<rightharpoonup> 'v) \<Rightarrow> 'k \<Rightarrow> error + 'v" where
  "lookup d k = (case d k of None \<Rightarrow> Inl KeyError | Some v \<Rightarrow> Inr v)"

text \<open>A \<^verbatim>\<open>for\<close> loop over a list whose body may raise: the first exception ends it.\<close>

fun for_each :: "('a \<Rightarrow> 's \<Rightarrow> error + 's) \<Rightarrow> 'a list \<Rightarrow> 's \<Rightarrow> error + 's" where
  "for_each body [] s = Inr s"
| "for_each body (x # xs) s =
     (case body x s of Inl e \<Rightarrow> Inl e | Inr s' \<Rightarrow> for_each body xs s')"

text \<open>A comprehension whose element expression may raise.\<close>

fun map_each :: "('a \<Rightarrow> error + 'b) \<Rightarrow> 'a list \<Rightarrow> error + 'b list" where
  "map_each f [] = Inr []"
| "map_each f (x # xs) =
     (case f x of Inl e \<Rightarrow> Inl e
      | Inr y \<Rightarrow> (case map_each f xs of Inl e \<Rightarrow> Inl e | Inr ys \<Rightarrow> Inr (y # ys)))"

subsection \<open>\<^verbatim>\<open>Maze.py\<close>: the grid MDP\<close>

datatype MazeActions = UP | DOWN | LEFT | RIGHT

text \<open>The values of the enumeration: the (row, column) step of each action.\<close>

fun action_value :: "MazeActions \<Rightarrow> int \<times> int" where
  "action_value UP = (-1, 0)"
| "action_value DOWN = (1, 0)"
| "action_value LEFT = (0, -1)"
| "action_value RIGHT = (0, 1)"

type_synonym state = "int \<times> int"

text \<open>A cell of the grid: a reward, or \<open>None\<close> for the wall marker \<^verbatim>\<open>W = None\<close>.\<close>

type_synonym grid = "real option list list"

record outcome =
  next_state :: state
  probability :: real

type_synonym outcome_map = "(MazeActions \<times> outcome) list"
type_synonym action_map = "(MazeActions \<times> outcome_map) list"

record maze =
  environment :: grid
  start_state :: state
  states :: "(state \<times> action_map) list"
  actions :: "MazeActions list"
  discount_factor :: real

text \<open>
  \<^verbatim>\<open>Maze.is_wall\<close>. The \<^verbatim>\<open>or\<close> chain is evaluated left to right and stops at the
  first true test, so \<^verbatim>\<open>environment[0]\<close> is read only when the row index is in range,
  and the cell only when the column index is within the first row.
\<close>

definition is_wall :: "grid \<Rightarrow> state \<Rightarrow> error + bool" where
  "is_wall env st =
     (if fst st < 0 then Inr True
      else if fst st \<ge> int (length env) then Inr True
      else if snd st < 0 then Inr True
      else (case py_index env 0 of Inl e \<Rightarrow> Inl e
        | Inr row0 \<Rightarrow>
            if snd st \<ge> int (length row0) then Inr True
            else (case py_index env (fst st) of Inl e \<Rightarrow> Inl e
              | Inr row \<Rightarrow>
                  (case py_index row (snd st) of Inl e \<Rightarrow> Inl e
                   | Inr cell \<Rightarrow> Inr (cell = None)))))"

text \<open>\<^verbatim>\<open>Maze.get_next_state_probabilities\<close>.\<close>

definition get_next_state_probabilities ::
  "grid \<Rightarrow> state \<Rightarrow> MazeActions \<Rightarrow> error + outcome_map" where
  "get_next_state_probabilities env st action =
     (case is_wall env (fst st - 1, snd st) of Inl e \<Rightarrow> Inl e
      | Inr wall_up \<Rightarrow>
     (case is_wall env (fst st + 1, snd st) of Inl e \<Rightarrow> Inl e
      | Inr wall_down \<Rightarrow>
     (case is_wall env (fst st, snd st - 1) of Inl e \<Rightarrow> Inl e
      | Inr wall_left \<Rightarrow>
     (case is_wall env (fst st, snd st + 1) of Inl e \<Rightarrow> Inl e
      | Inr wall_right \<Rightarrow>
        (let up_state = (if wall_up then st else (fst st - 1, snd st));
             down_state = (if wall_down then st else (fst st + 1, snd st));
             left_state = (if wall_left then st else (fst st, snd st - 1));
             right_state = (if wall_right then st else (fst st, snd st + 1))
         in Inr (case action of
             UP \<Rightarrow>
               [(UP, \<lparr>next_state = up_state, probability = 8 / 10\<rparr>),
                (LEFT, \<lparr>next_state = left_state, probability = 1 / 10\<rparr>),
                (RIGHT, \<lparr>next_state = right_state, probability = 1 / 10\<rparr>)]
           | DOWN \<Rightarrow>
               [(DOWN, \<lparr>next_state = down_state, probability = 8 / 10\<rparr>),
                (LEFT, \<lparr>next_state = left_state, probability = 1 / 10\<rparr>),
                (RIGHT, \<lparr>next_state = right_state, probability = 1 / 10\<rparr>)]
           | LEFT \<Rightarrow>
               [(LEFT, \<lparr>next_state = left_state, probability = 8 / 10\<rparr>),
                (UP, \<lparr>next_state = up_state, probability = 1 / 10\<rparr>),
                (DOWN, \<lparr>next_state = down_state, probability = 1 / 10\<rparr>)]
           | RIGHT \<Rightarrow>
               [(RIGHT, \<lparr>next_state = right_state, probability = 8 / 10\<rparr>),
                (UP, \<lparr>next_state = up_state, probability = 1 / 10\<rparr>),
                (DOWN, \<lparr>next_state = down_state, probability = 1 / 10\<rparr>)]))))))"

text \<open>\<^verbatim>\<open>Maze.build_action_next_state_map\<close>: one entry per member of the enumeration.\<close>

definition build_action_next_state_map :: "grid \<Rightarrow> state \<Rightarrow> error + action_map" where
  "build_action_next_state_map env st =
     map_each (\<lambda>action.
        case get_next_state_probabilities env st action of Inl e \<Rightarrow> Inl e
        | Inr next_states \<Rightarrow> Inr (action, next_states))
       [UP, DOWN, LEFT, RIGHT]"

text \<open>
  \<^verbatim>\<open>Maze.__init__\<close>. The comprehension visits the cells row by row, the width being
  \<^verbatim>\<open>len(environment[0])\<close> (read only when there is a row), and keeps the cells that
  \<^verbatim>\<open>is_wall\<close> rejects; then every kept state gets its action map.
\<close>

definition grid_cells :: "grid \<Rightarrow> state list" where
  "grid_cells env =
     concat (map (\<lambda>row. map (\<lambda>col. (int row, int col)) [0..<length (hd env)])
       [0..<length env])"

fun non_wall_cells :: "grid \<Rightarrow> state list \<Rightarrow> error + state list" where
  "non_wall_cells env [] = Inr []"
| "non_wall_cells env (c # cs) =
     (case is_wall env c of Inl e \<Rightarrow> Inl e
      | Inr w \<Rightarrow>
          (case non_wall_cells env cs of Inl e \<Rightarrow> Inl e
           | Inr rest \<Rightarrow> Inr (if w then rest else c # rest)))"

definition Maze_init :: "grid \<Rightarrow> state \<Rightarrow> real \<Rightarrow> error + maze" where
  "Maze_init env start gamma =
     (case non_wall_cells env (grid_cells env) of Inl e \<Rightarrow> Inl e
      | Inr cells \<Rightarrow>
          (case map_each (\<lambda>st.
                  case build_action_next_state_map env st of Inl e \<Rightarrow> Inl e
                  | Inr m \<Rightarrow> Inr (st, m)) cells of
             Inl e \<Rightarrow> Inl e
           | Inr table \<Rightarrow>
               Inr \<lparr>environment = env, start_state = start, states = table,
                    actions = [UP, DOWN, LEFT, RIGHT], discount_factor = gamma\<rparr>))"

text \<open>
  \<^verbatim>\<open>Maze.transition_model\<close>: \<^verbatim>\<open>dict.get\<close> gives \<^verbatim>\<open>None\<close> for an actual action that has
  no stored outcome, and then the probability is 0.
\<close>

definition transition_model ::
  "maze \<Rightarrow> state \<Rightarrow> MazeActions \<Rightarrow> MazeActions \<Rightarrow> error + real" where
  "transition_model mdp current_state intended_action actual_action =
     (case getitem (states mdp) current_state of Inl e \<Rightarrow> Inl e
      | Inr action_next_state_map \<Rightarrow>
          (case getitem action_next_state_map intended_action of Inl e \<Rightarrow> Inl e
           | Inr next_state_probability_map \<Rightarrow>
               (case map_of next_state_probability_map actual_action of
                  None \<Rightarrow> Inr 0
                | Some next_state_probability \<Rightarrow> Inr (probability next_state_probability))))"

text \<open>
  \<^verbatim>\<open>Maze.reward_function\<close>: two list subscripts and nothing else. The value is the
  cell as stored, so it is \<open>None\<close> for a wall.
\<close>

definition reward_function :: "maze \<Rightarrow> state \<Rightarrow> error + real option" where
  "reward_function mdp st =
     (case py_index (environment mdp) (fst st) of Inl e \<Rightarrow> Inl e
      | Inr row \<Rightarrow> py_index row (snd st))"

subsection \<open>\<^verbatim>\<open>Algorithms.py\<close>: the shared helpers\<close>

text \<open>
  \<^verbatim>\<open>get_expected_utility\<close>: the loop runs over the keys of the stored outcome map
  and reads each entry back by its key.
\<close>

definition expected_utility_step ::
  "maze \<Rightarrow> state \<Rightarrow> MazeActions \<Rightarrow> (state \<rightharpoonup> real) \<Rightarrow> outcome_map
     \<Rightarrow> MazeActions \<Rightarrow> real \<Rightarrow> error + real" where
  "expected_utility_step mdp current_state intended_action utilities stochastic_next_states
       stochastic_next_state expected_utility =
     (case getitem stochastic_next_states stochastic_next_state of Inl e \<Rightarrow> Inl e
      | Inr entry \<Rightarrow>
          (case lookup utilities (next_state entry) of Inl e \<Rightarrow> Inl e
           | Inr next_state_utility \<Rightarrow>
               (case transition_model mdp current_state intended_action stochastic_next_state of
                  Inl e \<Rightarrow> Inl e
                | Inr p \<Rightarrow> Inr (expected_utility + p * next_state_utility))))"

definition get_expected_utility ::
  "maze \<Rightarrow> state \<Rightarrow> MazeActions \<Rightarrow> (state \<rightharpoonup> real) \<Rightarrow> error + real" where
  "get_expected_utility mdp current_state intended_action utilities =
     (case getitem (states mdp) current_state of Inl e \<Rightarrow> Inl e
      | Inr action_next_state_map \<Rightarrow>
          (case getitem action_next_state_map intended_action of Inl e \<Rightarrow> Inl e
           | Inr stochastic_next_states \<Rightarrow>
               for_each
                 (expected_utility_step mdp current_state intended_action utilities
                    stochastic_next_states)
                 (keys stochastic_next_states) 0))"

text \<open>
  The arg-max loop that \<^verbatim>\<open>bellman_equation\<close> and \<^verbatim>\<open>policy_improvement\<close> both contain.
  Its accumulator is (\<^verbatim>\<open>max_expected_utility\<close>, \<^verbatim>\<open>best_action\<close>), where \<open>None\<close> in the
  first component is \<^verbatim>\<open>float('-inf')\<close>, below every real number, and \<open>None\<close> in the
  second is Python's \<^verbatim>\<open>None\<close>. An expected utility is a real number here and always
  exceeds the initial bound; one that has overflowed to \<^verbatim>\<open>-inf\<close>, or is NaN, does not, and
  \<open>float_best_action_step\<close> below has that case.
\<close>

definition best_action_step ::
  "maze \<Rightarrow> state \<Rightarrow> (state \<rightharpoonup> real) \<Rightarrow> MazeActions
     \<Rightarrow> real option \<times> MazeActions option \<Rightarrow> error + (real option \<times> MazeActions option)" where
  "best_action_step mdp current_state utilities action acc =
     (case get_expected_utility mdp current_state action utilities of Inl e \<Rightarrow> Inl e
      | Inr expected_utility \<Rightarrow>
          if (case fst acc of None \<Rightarrow> True
              | Some max_expected_utility \<Rightarrow> expected_utility > max_expected_utility)
          then Inr (Some expected_utility, Some action)
          else Inr acc)"

definition best_action_loop ::
  "maze \<Rightarrow> state \<Rightarrow> (state \<rightharpoonup> real) \<Rightarrow> action_map
     \<Rightarrow> error + (real option \<times> MazeActions option)" where
  "best_action_loop mdp current_state utilities action_next_state_map =
     for_each (best_action_step mdp current_state utilities)
       (keys action_next_state_map) (None, None)"

text \<open>
  \<^verbatim>\<open>bellman_equation\<close>. The sum in the last line raises \<^verbatim>\<open>TypeError\<close> when the reward is
  \<^verbatim>\<open>None\<close>. When the bound is still \<^verbatim>\<open>-inf\<close> after the loop, which over the real numbers
  needs an empty action map, the source raises nothing and returns a result computed from
  \<^verbatim>\<open>-inf\<close>, with \<^verbatim>\<open>None\<close> as the best action; no real number is that result, the value
  \<open>Inl NonFiniteFloat\<close> marks the case here, and \<open>float_bellman_equation\<close> below computes it.
\<close>

definition bellman_equation ::
  "maze \<Rightarrow> state \<Rightarrow> (state \<rightharpoonup> real) \<Rightarrow> error + (real \<times> MazeActions option)" where
  "bellman_equation mdp current_state current_utilities =
     (case getitem (states mdp) current_state of Inl e \<Rightarrow> Inl e
      | Inr action_next_state_map \<Rightarrow>
          (case reward_function mdp current_state of Inl e \<Rightarrow> Inl e
           | Inr current_state_reward \<Rightarrow>
               (case best_action_loop mdp current_state current_utilities
                       action_next_state_map of
                  Inl e \<Rightarrow> Inl e
                | Inr (max_expected_utility, best_action) \<Rightarrow>
                    (case current_state_reward of None \<Rightarrow> Inl TypeError
                     | Some r \<Rightarrow>
                         (case max_expected_utility of None \<Rightarrow> Inl NonFiniteFloat
                          | Some m \<Rightarrow>
                              Inr (r + discount_factor mdp * m, best_action))))))"

text \<open>
  The policy dictionaries hold \<^verbatim>\<open>None\<close> or an action. An expected utility for
  \<^verbatim>\<open>policy[state]\<close> raises \<^verbatim>\<open>KeyError\<close> when the state has no entry, and also when the
  entry is \<^verbatim>\<open>None\<close>, which is no key of an action map.
\<close>

definition policy_expected_utility ::
  "maze \<Rightarrow> state \<Rightarrow> (state \<rightharpoonup> MazeActions option) \<Rightarrow> (state \<rightharpoonup> real) \<Rightarrow> error + real" where
  "policy_expected_utility mdp st policy utilities =
     (case lookup policy st of Inl e \<Rightarrow> Inl e
      | Inr None \<Rightarrow>
          (case getitem (states mdp) st of Inl e \<Rightarrow> Inl e | Inr _ \<Rightarrow> Inl KeyError)
      | Inr (Some action) \<Rightarrow> get_expected_utility mdp st action utilities)"

text \<open>The dictionary that both solvers return.\<close>

record result =
  converged_utilities :: "state \<rightharpoonup> real"
  optimal_policy :: "state \<rightharpoonup> MazeActions option"
  num_iterations :: nat
  iteration_utilities :: "state \<rightharpoonup> real list"

text \<open>
  The \<^verbatim>\<open>return\<close> statement of both solvers: \<^verbatim>\<open>len(d.get(start_state))\<close> raises
  \<^verbatim>\<open>TypeError\<close> when the start state has no history.
\<close>

definition make_result ::
  "maze \<Rightarrow> (state \<rightharpoonup> real) \<Rightarrow> (state \<rightharpoonup> MazeActions option) \<Rightarrow> (state \<rightharpoonup> real list)
     \<Rightarrow> error + result" where
  "make_result mdp current_utilities policy all_iteration_utilities =
     (case all_iteration_utilities (start_state mdp) of None \<Rightarrow> Inl TypeError
      | Some history \<Rightarrow>
          Inr \<lparr>converged_utilities = current_utilities, optimal_policy = policy,
               num_iterations = length history,
               iteration_utilities = all_iteration_utilities\<rparr>)"

subsection \<open>\<^verbatim>\<open>value_iteration\<close>\<close>

text \<open>
  The local variables of the function. Their names carry the prefix \<open>vi_\<close>, and those of
  \<^verbatim>\<open>policy_iteration\<close> the prefix \<open>pi_\<close>, because a field name belongs to one record.
\<close>

record vi_locals =
  vi_current_utilities :: "state \<rightharpoonup> real"
  vi_new_utilities :: "state \<rightharpoonup> real"
  vi_all_iteration_utilities :: "state \<rightharpoonup> real list"
  vi_optimal_policy :: "state \<rightharpoonup> MazeActions option"

text \<open>Lines 28 to 42: the four dictionaries and the initialising loop.\<close>

definition vi_init :: "maze \<Rightarrow> vi_locals" where
  "vi_init mdp =
     fold (\<lambda>st v. v\<lparr>vi_new_utilities := (vi_new_utilities v)(st \<mapsto> 0),
                     vi_all_iteration_utilities := (vi_all_iteration_utilities v)(st \<mapsto> []),
                     vi_optimal_policy := (vi_optimal_policy v)(st \<mapsto> None)\<rparr>)
       (keys (states mdp))
       \<lparr>vi_current_utilities = Map.empty, vi_new_utilities = Map.empty,
        vi_all_iteration_utilities = Map.empty, vi_optimal_policy = Map.empty\<rparr>"

text \<open>Lines 48 and 49: one history entry per state.\<close>

definition vi_record_step :: "state \<Rightarrow> vi_locals \<Rightarrow> error + vi_locals" where
  "vi_record_step st v =
     (case lookup (vi_all_iteration_utilities v) st of Inl e \<Rightarrow> Inl e
      | Inr history \<Rightarrow>
          (case lookup (vi_current_utilities v) st of Inl e \<Rightarrow> Inl e
           | Inr u \<Rightarrow>
               Inr (v\<lparr>vi_all_iteration_utilities :=
                        (vi_all_iteration_utilities v)(st \<mapsto> history @ [u])\<rparr>)))"

text \<open>
  Lines 54 to 61: the body of the sweep, on the locals and \<^verbatim>\<open>max_utility_difference\<close>.
  \<^verbatim>\<open>bellman_equation\<close> is given \<^verbatim>\<open>current_utilities\<close>; the assignment goes to
  \<^verbatim>\<open>new_utilities\<close>, another dictionary.
\<close>

definition vi_sweep_step ::
  "maze \<Rightarrow> state \<Rightarrow> vi_locals \<times> real \<Rightarrow> error + (vi_locals \<times> real)" where
  "vi_sweep_step mdp st acc =
     (case bellman_equation mdp st (vi_current_utilities (fst acc)) of Inl e \<Rightarrow> Inl e
      | Inr (updated_utility, best_action) \<Rightarrow>
          (let v = (fst acc)\<lparr>vi_new_utilities := (vi_new_utilities (fst acc))(st \<mapsto> updated_utility),
                             vi_optimal_policy := (vi_optimal_policy (fst acc))(st \<mapsto> best_action)\<rparr>
           in (case lookup (vi_new_utilities v) st of Inl e \<Rightarrow> Inl e
               | Inr new_u \<Rightarrow>
                   (case lookup (vi_current_utilities v) st of Inl e \<Rightarrow> Inl e
                    | Inr cur_u \<Rightarrow> Inr (v, max (snd acc) \<bar>new_u - cur_u\<bar>)))))"

text \<open>
  Lines 45 to 65: one turn of the \<^verbatim>\<open>while True\<close> loop. The result is the locals
  after the turn, the residual, and whether the \<^verbatim>\<open>break\<close> is taken. The division by
  the discount factor raises \<^verbatim>\<open>ZeroDivisionError\<close> when that is 0.
\<close>

definition vi_body :: "maze \<Rightarrow> real \<Rightarrow> vi_locals \<Rightarrow> error + (vi_locals \<times> real \<times> bool)" where
  "vi_body mdp max_error v =
     (let v1 = v\<lparr>vi_current_utilities := vi_current_utilities v ++ vi_new_utilities v\<rparr>
      in (case for_each vi_record_step (keys (states mdp)) v1 of Inl e \<Rightarrow> Inl e
          | Inr v2 \<Rightarrow>
              (case for_each (vi_sweep_step mdp) (keys (states mdp)) (v2, 0) of
                 Inl e \<Rightarrow> Inl e
               | Inr (v3, max_utility_difference) \<Rightarrow>
                   if discount_factor mdp = 0 then Inl ZeroDivisionError
                   else Inr (v3, max_utility_difference,
                          max_utility_difference
                            < max_error * (1 - discount_factor mdp) / discount_factor mdp))))"

partial_function (option) vi_loop ::
  "maze \<Rightarrow> real \<Rightarrow> vi_locals \<Rightarrow> (error + result) option" where
  "vi_loop mdp max_error v =
     (case vi_body mdp max_error v of Inl e \<Rightarrow> Some (Inl e)
      | Inr (v', max_utility_difference, stop) \<Rightarrow>
          if stop
          then Some (make_result mdp (vi_current_utilities v') (vi_optimal_policy v')
                       (vi_all_iteration_utilities v'))
          else vi_loop mdp max_error v')"

definition value_iteration :: "maze \<Rightarrow> real \<Rightarrow> (error + result) option" where
  "value_iteration mdp max_error = vi_loop mdp max_error (vi_init mdp)"

subsection \<open>\<^verbatim>\<open>policy_iteration\<close>\<close>

record pi_locals =
  pi_current_utilities :: "state \<rightharpoonup> real"
  pi_policy :: "state \<rightharpoonup> MazeActions option"
  pi_all_iteration_utilities :: "state \<rightharpoonup> real list"
  pi_hasChanged :: bool
  pi_num_iterations :: int

text \<open>Lines 96 to 111.\<close>

definition pi_init :: "maze \<Rightarrow> pi_locals" where
  "pi_init mdp =
     fold (\<lambda>st v. v\<lparr>pi_current_utilities := (pi_current_utilities v)(st \<mapsto> 0),
                     pi_policy := (pi_policy v)(st \<mapsto> Some UP),
                     pi_all_iteration_utilities := (pi_all_iteration_utilities v)(st \<mapsto> [0])\<rparr>)
       (keys (states mdp))
       \<lparr>pi_current_utilities = Map.empty, pi_policy = Map.empty,
        pi_all_iteration_utilities = Map.empty, pi_hasChanged = True,
        pi_num_iterations = 0\<rparr>"

text \<open>
  \<^verbatim>\<open>policy_evaluation\<close>. Its locals are (\<^verbatim>\<open>current_utilities\<close>, \<^verbatim>\<open>updated_utilities\<close>,
  \<^verbatim>\<open>new_iteration_utilities\<close>).
\<close>

type_synonym pe_locals = "(state \<rightharpoonup> real) \<times> (state \<rightharpoonup> real) \<times> (state \<rightharpoonup> real list)"

definition pe_init_step :: "(state \<rightharpoonup> real) \<Rightarrow> state \<Rightarrow> pe_locals \<Rightarrow> error + pe_locals" where
  "pe_init_step utilities st acc =
     (case acc of (current_utilities, updated_utilities, new_iteration_utilities) \<Rightarrow>
        (case lookup utilities st of Inl e \<Rightarrow> Inl e
         | Inr u \<Rightarrow>
             Inr (current_utilities(st \<mapsto> u), updated_utilities,
                  new_iteration_utilities(st \<mapsto> []))))"

definition pe_update_step ::
  "maze \<Rightarrow> (state \<rightharpoonup> MazeActions option) \<Rightarrow> state \<Rightarrow> pe_locals \<Rightarrow> error + pe_locals" where
  "pe_update_step mdp policy st acc =
     (case acc of (current_utilities, updated_utilities, new_iteration_utilities) \<Rightarrow>
        (case reward_function mdp st of Inl e \<Rightarrow> Inl e
         | Inr current_state_reward \<Rightarrow>
             (case policy_expected_utility mdp st policy current_utilities of Inl e \<Rightarrow> Inl e
              | Inr expected_utility \<Rightarrow>
                  (case current_state_reward of None \<Rightarrow> Inl TypeError
                   | Some r \<Rightarrow>
                       Inr (current_utilities,
                            updated_utilities(st \<mapsto> r + discount_factor mdp * expected_utility),
                            new_iteration_utilities)))))"

definition pe_copy_step :: "state \<Rightarrow> pe_locals \<Rightarrow> error + pe_locals" where
  "pe_copy_step st acc =
     (case acc of (current_utilities, updated_utilities, new_iteration_utilities) \<Rightarrow>
        (case lookup updated_utilities st of Inl e \<Rightarrow> Inl e
         | Inr u \<Rightarrow>
             (case lookup new_iteration_utilities st of Inl e \<Rightarrow> Inl e
              | Inr history \<Rightarrow>
                  Inr (current_utilities(st \<mapsto> u), updated_utilities,
                       new_iteration_utilities(st \<mapsto> history @ [u])))))"

text \<open>One turn of \<^verbatim>\<open>for i in range(num_policy_evaluation)\<close>.\<close>

definition pe_round ::
  "maze \<Rightarrow> (state \<rightharpoonup> MazeActions option) \<Rightarrow> pe_locals \<Rightarrow> error + pe_locals" where
  "pe_round mdp policy acc =
     (case for_each (pe_update_step mdp policy) (keys (states mdp)) acc of Inl e \<Rightarrow> Inl e
      | Inr acc' \<Rightarrow> for_each pe_copy_step (keys (states mdp)) acc')"

fun pe_rounds ::
  "nat \<Rightarrow> maze \<Rightarrow> (state \<rightharpoonup> MazeActions option) \<Rightarrow> pe_locals \<Rightarrow> error + pe_locals" where
  "pe_rounds 0 mdp policy acc = Inr acc"
| "pe_rounds (Suc n) mdp policy acc =
     (case pe_round mdp policy acc of Inl e \<Rightarrow> Inl e
      | Inr acc' \<Rightarrow> pe_rounds n mdp policy acc')"

text \<open>\<^verbatim>\<open>range(k)\<close> has \<open>nat k\<close> members: none when \<open>k\<close> is negative.\<close>

definition policy_evaluation ::
  "maze \<Rightarrow> (state \<rightharpoonup> MazeActions option) \<Rightarrow> (state \<rightharpoonup> real) \<Rightarrow> int
     \<Rightarrow> error + ((state \<rightharpoonup> real) \<times> (state \<rightharpoonup> real list))" where
  "policy_evaluation mdp policy utilities num_policy_evaluation =
     (case for_each (pe_init_step utilities) (keys (states mdp))
             (Map.empty, Map.empty, Map.empty) of
        Inl e \<Rightarrow> Inl e
      | Inr acc \<Rightarrow>
          (case pe_rounds (nat num_policy_evaluation) mdp policy acc of Inl e \<Rightarrow> Inl e
           | Inr (current_utilities, updated_utilities, new_iteration_utilities) \<Rightarrow>
               Inr (current_utilities, new_iteration_utilities)))"

text \<open>
  \<^verbatim>\<open>policy_improvement\<close>, on (\<^verbatim>\<open>improved_policy\<close>, \<^verbatim>\<open>hasChanged\<close>). The comparison of
  \<^verbatim>\<open>-inf\<close> with a number is false.
\<close>

definition policy_improvement_step ::
  "maze \<Rightarrow> (state \<rightharpoonup> MazeActions option) \<Rightarrow> (state \<rightharpoonup> real) \<Rightarrow> state
     \<Rightarrow> (state \<rightharpoonup> MazeActions option) \<times> bool
     \<Rightarrow> error + ((state \<rightharpoonup> MazeActions option) \<times> bool)" where
  "policy_improvement_step mdp policy utilities st acc =
     (case getitem (states mdp) st of Inl e \<Rightarrow> Inl e
      | Inr action_next_state_map \<Rightarrow>
          (case best_action_loop mdp st utilities action_next_state_map of Inl e \<Rightarrow> Inl e
           | Inr (max_expected_utility, best_action) \<Rightarrow>
               (case policy_expected_utility mdp st policy utilities of Inl e \<Rightarrow> Inl e
                | Inr current_expected_utility \<Rightarrow>
                    if (case max_expected_utility of None \<Rightarrow> False
                        | Some m \<Rightarrow> m > current_expected_utility)
                    then Inr ((fst acc)(st \<mapsto> best_action), True)
                    else (case lookup policy st of Inl e \<Rightarrow> Inl e
                          | Inr a \<Rightarrow> Inr ((fst acc)(st \<mapsto> a), snd acc)))))"

definition policy_improvement ::
  "maze \<Rightarrow> (state \<rightharpoonup> MazeActions option) \<Rightarrow> (state \<rightharpoonup> real)
     \<Rightarrow> error + ((state \<rightharpoonup> MazeActions option) \<times> bool)" where
  "policy_improvement mdp policy utilities =
     for_each (policy_improvement_step mdp policy utilities) (keys (states mdp))
       (Map.empty, False)"

text \<open>Lines 128 and 129: the histories are extended by the new entries.\<close>

definition pi_extend_step ::
  "(state \<rightharpoonup> real list) \<Rightarrow> state \<Rightarrow> (state \<rightharpoonup> real list) \<Rightarrow> error + (state \<rightharpoonup> real list)" where
  "pi_extend_step new_iteration_utilities st all_iteration_utilities =
     (case lookup all_iteration_utilities st of Inl e \<Rightarrow> Inl e
      | Inr history \<Rightarrow>
          (case lookup new_iteration_utilities st of Inl e \<Rightarrow> Inl e
           | Inr new_entries \<Rightarrow> Inr (all_iteration_utilities(st \<mapsto> history @ new_entries))))"

text \<open>Lines 114 to 129: one turn of \<^verbatim>\<open>while hasChanged\<close>.\<close>

definition pi_body :: "maze \<Rightarrow> int \<Rightarrow> pi_locals \<Rightarrow> error + pi_locals" where
  "pi_body mdp num_policy_evaluation v =
     (case policy_evaluation mdp (pi_policy v) (pi_current_utilities v)
             num_policy_evaluation of
        Inl e \<Rightarrow> Inl e
      | Inr (current_utilities, new_iteration_utilities) \<Rightarrow>
          (case policy_improvement mdp (pi_policy v) current_utilities of Inl e \<Rightarrow> Inl e
           | Inr (policy, hasChanged) \<Rightarrow>
               (case for_each (pi_extend_step new_iteration_utilities) (keys (states mdp))
                       (pi_all_iteration_utilities v) of
                  Inl e \<Rightarrow> Inl e
                | Inr all_iteration_utilities \<Rightarrow>
                    Inr \<lparr>pi_current_utilities = current_utilities, pi_policy = policy,
                         pi_all_iteration_utilities = all_iteration_utilities,
                         pi_hasChanged = hasChanged,
                         pi_num_iterations = pi_num_iterations v + num_policy_evaluation\<rparr>)))"

text \<open>The loop gives the locals at its exit, the local counter among them.\<close>

partial_function (option) pi_loop ::
  "maze \<Rightarrow> int \<Rightarrow> pi_locals \<Rightarrow> (error + pi_locals) option" where
  "pi_loop mdp num_policy_evaluation v =
     (if pi_hasChanged v
      then (case pi_body mdp num_policy_evaluation v of Inl e \<Rightarrow> Some (Inl e)
            | Inr v' \<Rightarrow> pi_loop mdp num_policy_evaluation v')
      else Some (Inr v))"

definition policy_iteration :: "maze \<Rightarrow> int \<Rightarrow> (error + result) option" where
  "policy_iteration mdp num_policy_evaluation =
     (case pi_loop mdp num_policy_evaluation (pi_init mdp) of None \<Rightarrow> None
      | Some (Inl e) \<Rightarrow> Some (Inl e)
      | Some (Inr v) \<Rightarrow>
          Some (make_result mdp (pi_current_utilities v) (pi_policy v)
                  (pi_all_iteration_utilities v)))"

subsection \<open>The specification's vocabulary\<close>

text \<open>
  These definitions follow the words of the specification, not the code: a cell is
  valid when it is inside the grid and no wall; the nominal neighbour of a state is one
  step of the action away; a move whose nominal neighbour is not valid stays in place;
  the outcomes of an intended action are the action itself with probability 0.8 and the
  two perpendicular directions with probability 0.1 each.
\<close>

definition valid_cell :: "grid \<Rightarrow> state \<Rightarrow> bool" where
  "valid_cell env st =
     (0 \<le> fst st \<and> fst st < int (length env) \<and> 0 \<le> snd st \<and> snd st < int (length (hd env))
      \<and> env ! nat (fst st) ! nat (snd st) \<noteq> None)"

fun perpendicular :: "MazeActions \<Rightarrow> MazeActions list" where
  "perpendicular UP = [LEFT, RIGHT]"
| "perpendicular DOWN = [LEFT, RIGHT]"
| "perpendicular LEFT = [UP, DOWN]"
| "perpendicular RIGHT = [UP, DOWN]"

fun reverse_action :: "MazeActions \<Rightarrow> MazeActions" where
  "reverse_action UP = DOWN"
| "reverse_action DOWN = UP"
| "reverse_action LEFT = RIGHT"
| "reverse_action RIGHT = LEFT"

definition nominal_neighbor :: "state \<Rightarrow> MazeActions \<Rightarrow> state" where
  "nominal_neighbor st a = (fst st + fst (action_value a), snd st + snd (action_value a))"

definition landing :: "grid \<Rightarrow> state \<Rightarrow> MazeActions \<Rightarrow> state" where
  "landing env st a =
     (if valid_cell env (nominal_neighbor st a) then nominal_neighbor st a else st)"

definition spec_outcomes :: "grid \<Rightarrow> state \<Rightarrow> MazeActions \<Rightarrow> outcome_map" where
  "spec_outcomes env st a =
     (a, \<lparr>next_state = landing env st a, probability = 8 / 10\<rparr>)
     # map (\<lambda>d. (d, \<lparr>next_state = landing env st d, probability = 1 / 10\<rparr>)) (perpendicular a)"

definition spec_action_map :: "grid \<Rightarrow> state \<Rightarrow> action_map" where
  "spec_action_map env st = map (\<lambda>a. (a, spec_outcomes env st a)) [UP, DOWN, LEFT, RIGHT]"

text \<open>The position that Python reads for an index in range: negative ones count from the end.\<close>

definition python_position :: "'a list \<Rightarrow> int \<Rightarrow> nat" where
  "python_position xs i = nat (if i < 0 then i + int (length xs) else i)"

text \<open>
  A utility table read as a function, and the term that one key of an outcome map adds
  to an expected utility; both are 0 where the table or the map has no entry.
\<close>

definition utility_of :: "(state \<rightharpoonup> real) \<Rightarrow> state \<Rightarrow> real" where
  "utility_of U s = (case U s of None \<Rightarrow> 0 | Some u \<Rightarrow> u)"

definition outcome_term :: "(state \<rightharpoonup> real) \<Rightarrow> outcome_map \<Rightarrow> MazeActions \<Rightarrow> real" where
  "outcome_term U outcomes k =
     (case map_of outcomes k of None \<Rightarrow> 0
      | Some entry \<Rightarrow> probability entry * (case U (next_state entry) of None \<Rightarrow> 0 | Some u \<Rightarrow> u))"

text \<open>
  The Bellman backup in the specification's notation: \<open>A(s)\<close>, \<open>R(s)\<close>, \<open>P(s' | s, a)\<close> as
  the total probability of the stored outcomes of \<open>(s, a)\<close> that lead to \<open>s'\<close>, the
  expected utility \<open>\<Sum>s'. P(s' | s, a) \<cdot> U(s')\<close> over the reachable next states, and
  \<open>R(s) + \<gamma> \<cdot> max\<^bsub>a\<^esub> \<Sum>s'. P(s' | s, a) \<cdot> U(s')\<close>.
\<close>

definition available_actions :: "maze \<Rightarrow> state \<Rightarrow> MazeActions list" where
  "available_actions mdp s =
     (case map_of (states mdp) s of None \<Rightarrow> [] | Some action_map \<Rightarrow> keys action_map)"

definition stored_outcomes :: "maze \<Rightarrow> state \<Rightarrow> MazeActions \<Rightarrow> outcome list" where
  "stored_outcomes mdp s a =
     (case map_of (states mdp) s of None \<Rightarrow> []
      | Some action_map \<Rightarrow>
          (case map_of action_map a of None \<Rightarrow> [] | Some outcomes \<Rightarrow> map snd outcomes))"


definition next_state_probability :: "maze \<Rightarrow> state \<Rightarrow> MazeActions \<Rightarrow> state \<Rightarrow> real" where
  "next_state_probability mdp s a s' =
     sum_list (map probability (filter (\<lambda>entry. next_state entry = s') (stored_outcomes mdp s a)))"

definition spec_expected_utility ::
  "maze \<Rightarrow> (state \<Rightarrow> real) \<Rightarrow> state \<Rightarrow> MazeActions \<Rightarrow> real" where
  "spec_expected_utility mdp U s a =
     (\<Sum>s' \<in> next_state ` set (stored_outcomes mdp s a). next_state_probability mdp s a s' * U s')"




subsection \<open>Invariants\<close>

text \<open>
  A Python dictionary has no key twice. The association lists of a maze must have that
  property to stand for dictionaries.
\<close>

definition dict_keys_unique :: "maze \<Rightarrow> bool" where
  "dict_keys_unique mdp =
     (distinct (keys (states mdp))
      \<and> (\<forall>(st, action_map) \<in> set (states mdp).
            distinct (keys action_map)
          \<and> (\<forall>(a, outcomes) \<in> set action_map. distinct (keys outcomes))))"

text \<open>
  What the solvers need of a maze to raise nothing: every state has a numeric reward and
  a non-empty action map, and every stored next state is a state.
\<close>

definition well_formed :: "maze \<Rightarrow> bool" where
  "well_formed mdp =
     (\<forall>(st, action_map) \<in> set (states mdp).
        (\<exists>r. reward_function mdp st = Inr (Some r))
      \<and> action_map \<noteq> []
      \<and> (\<forall>(a, outcomes) \<in> set action_map. \<forall>(actual, entry) \<in> set outcomes.
            next_state entry \<in> set (keys (states mdp))))"

text \<open>The locals of \<^verbatim>\<open>value_iteration\<close> have an entry for every state where the loop reads.\<close>

definition vi_tables_total :: "maze \<Rightarrow> vi_locals \<Rightarrow> bool" where
  "vi_tables_total mdp v =
     (set (keys (states mdp)) \<subseteq> dom (vi_new_utilities v)
      \<and> set (keys (states mdp)) \<subseteq> dom (vi_all_iteration_utilities v))"

text \<open>
  Two properties of the locals of \<^verbatim>\<open>policy_iteration\<close>: every state has an action as its
  policy entry, and every history is one longer than the counter says.
\<close>

definition policy_total :: "maze \<Rightarrow> pi_locals \<Rightarrow> bool" where
  "policy_total mdp v = (\<forall>st\<in>set (keys (states mdp)). \<exists>a. pi_policy v st = Some (Some a))"

definition history_counted :: "maze \<Rightarrow> pi_locals \<Rightarrow> bool" where
  "history_counted mdp v =
     (\<forall>st\<in>set (keys (states mdp)). \<exists>h.
        pi_all_iteration_utilities v st = Some h \<and> int (length h) = 1 + pi_num_iterations v)"

subsection \<open>Concrete mazes\<close>

text \<open>The maze that the constructor builds from the grid \<^verbatim>\<open>[[r]]\<close>.\<close>

definition one_cell_maze :: "real \<Rightarrow> real \<Rightarrow> maze" where
  "one_cell_maze r gamma =
     \<lparr>environment = [[Some r]], start_state = (0, 0),
      states =
        [((0, 0),
          [(UP, [(UP, \<lparr>next_state = (0, 0), probability = 8 / 10\<rparr>),
                 (LEFT, \<lparr>next_state = (0, 0), probability = 1 / 10\<rparr>),
                 (RIGHT, \<lparr>next_state = (0, 0), probability = 1 / 10\<rparr>)]),
           (DOWN, [(DOWN, \<lparr>next_state = (0, 0), probability = 8 / 10\<rparr>),
                   (LEFT, \<lparr>next_state = (0, 0), probability = 1 / 10\<rparr>),
                   (RIGHT, \<lparr>next_state = (0, 0), probability = 1 / 10\<rparr>)]),
           (LEFT, [(LEFT, \<lparr>next_state = (0, 0), probability = 8 / 10\<rparr>),
                   (UP, \<lparr>next_state = (0, 0), probability = 1 / 10\<rparr>),
                   (DOWN, \<lparr>next_state = (0, 0), probability = 1 / 10\<rparr>)]),
           (RIGHT, [(RIGHT, \<lparr>next_state = (0, 0), probability = 8 / 10\<rparr>),
                    (UP, \<lparr>next_state = (0, 0), probability = 1 / 10\<rparr>),
                    (DOWN, \<lparr>next_state = (0, 0), probability = 1 / 10\<rparr>)])])],
      actions = [UP, DOWN, LEFT, RIGHT], discount_factor = gamma\<rparr>"

text \<open>The maze of the grid \<^verbatim>\<open>[[1, W]]\<close>: one state, and a wall to its right.\<close>

definition walled_maze :: "real \<Rightarrow> maze" where
  "walled_maze gamma = (one_cell_maze 1 gamma)\<lparr>environment := [[Some 1, None]]\<rparr>"

subsection \<open>Python floats: infinities, NaN and overflow\<close>

text \<open>
  The solvers compute with Python floats. A float is a finite number, an infinity or
  NaN. Rounding is not modelled: a finite result is kept exact. Overflow is: the exact
  result of an operation becomes an infinity when its magnitude reaches
  \<open>2\<^sup>1\<^sup>0\<^sup>2\<^sup>4 - 2\<^sup>9\<^sup>7\<^sup>0\<close>, the point from which round-to-nearest gives an infinity. Python
  raises nothing when \<^verbatim>\<open>+\<close>, \<^verbatim>\<open>-\<close>, \<^verbatim>\<open>*\<close> or \<^verbatim>\<open>/\<close> on floats overflows or meets an infinity
  or NaN; only a division by zero raises.
\<close>

datatype pyfloat = Finite real | PosInf | NegInf | NaN

definition overflow_threshold :: real where
  "overflow_threshold = 2 ^ 1024 - 2 ^ 970"

definition float_of :: "real \<Rightarrow> pyfloat" where
  "float_of x =
     (if overflow_threshold \<le> x then PosInf
      else if x \<le> - overflow_threshold then NegInf
      else Finite x)"

fun fl_add :: "pyfloat \<Rightarrow> pyfloat \<Rightarrow> pyfloat" where
  "fl_add (Finite a) (Finite b) = float_of (a + b)"
| "fl_add (Finite a) PosInf = PosInf"
| "fl_add (Finite a) NegInf = NegInf"
| "fl_add PosInf (Finite b) = PosInf"
| "fl_add PosInf PosInf = PosInf"
| "fl_add PosInf NegInf = NaN"
| "fl_add NegInf (Finite b) = NegInf"
| "fl_add NegInf PosInf = NaN"
| "fl_add NegInf NegInf = NegInf"
| "fl_add NaN y = NaN"
| "fl_add x NaN = NaN"

fun fl_neg :: "pyfloat \<Rightarrow> pyfloat" where
  "fl_neg (Finite a) = Finite (- a)"
| "fl_neg PosInf = NegInf"
| "fl_neg NegInf = PosInf"
| "fl_neg NaN = NaN"

definition fl_sub :: "pyfloat \<Rightarrow> pyfloat \<Rightarrow> pyfloat" where
  "fl_sub x y = fl_add x (fl_neg y)"

text \<open>The product of an infinity and a finite number: NaN for 0, else an infinity by sign.\<close>

definition signed_inf :: "bool \<Rightarrow> pyfloat" where
  "signed_inf positive = (if positive then PosInf else NegInf)"

fun fl_mul :: "pyfloat \<Rightarrow> pyfloat \<Rightarrow> pyfloat" where
  "fl_mul (Finite a) (Finite b) = float_of (a * b)"
| "fl_mul (Finite a) PosInf = (if a = 0 then NaN else signed_inf (0 < a))"
| "fl_mul (Finite a) NegInf = (if a = 0 then NaN else signed_inf (a < 0))"
| "fl_mul PosInf (Finite b) = (if b = 0 then NaN else signed_inf (0 < b))"
| "fl_mul NegInf (Finite b) = (if b = 0 then NaN else signed_inf (b < 0))"
| "fl_mul PosInf PosInf = PosInf"
| "fl_mul PosInf NegInf = NegInf"
| "fl_mul NegInf PosInf = NegInf"
| "fl_mul NegInf NegInf = PosInf"
| "fl_mul NaN y = NaN"
| "fl_mul x NaN = NaN"

text \<open>\<^verbatim>\<open>x / d\<close> for a finite, non-zero divisor \<open>d\<close>; the caller raises for \<open>d = 0\<close>.\<close>

fun fl_div :: "pyfloat \<Rightarrow> real \<Rightarrow> pyfloat" where
  "fl_div (Finite a) d = float_of (a / d)"
| "fl_div PosInf d = signed_inf (0 < d)"
| "fl_div NegInf d = signed_inf (d < 0)"
| "fl_div NaN d = NaN"

fun fl_abs :: "pyfloat \<Rightarrow> pyfloat" where
  "fl_abs (Finite a) = Finite \<bar>a\<bar>"
| "fl_abs PosInf = PosInf"
| "fl_abs NegInf = PosInf"
| "fl_abs NaN = NaN"

text \<open>\<^verbatim>\<open>x < y\<close>: false whenever NaN is involved.\<close>

fun fl_less :: "pyfloat \<Rightarrow> pyfloat \<Rightarrow> bool" where
  "fl_less (Finite a) (Finite b) = (a < b)"
| "fl_less (Finite a) PosInf = True"
| "fl_less NegInf (Finite b) = True"
| "fl_less NegInf PosInf = True"
| "fl_less x y = False"

text \<open>\<^verbatim>\<open>max(x, y)\<close> of Python: the first argument unless the second is greater.\<close>

definition py_max :: "pyfloat \<Rightarrow> pyfloat \<Rightarrow> pyfloat" where
  "py_max x y = (if fl_less x y then y else x)"


subsection \<open>\<^verbatim>\<open>Algorithms.py\<close> on Python floats\<close>

text \<open>
  The embedding of \<^verbatim>\<open>Algorithms.py\<close> above takes utilities as real numbers, where no sum
  overflows and every number is above \<^verbatim>\<open>-inf\<close>. This second embedding of the same functions
  keeps the float values of the utilities: the bound \<^verbatim>\<open>float('-inf')\<close> is the value \<open>NegInf\<close>,
  the comparison \<^verbatim>\<open>expected_utility > max_expected_utility\<close> is that of floats, false for
  \<^verbatim>\<open>-inf > -inf\<close> and for NaN, and \<^verbatim>\<open>bellman_equation\<close> raises nothing when the bound was never
  exceeded. The rewards, the probabilities, the discount factor and \<^verbatim>\<open>max_error\<close> are finite
  numbers. Each name is that of the source with the prefix \<open>float_\<close>.
\<close>

abbreviation fl_greater :: "pyfloat \<Rightarrow> pyfloat \<Rightarrow> bool" where
  "fl_greater x y \<equiv> fl_less y x"

definition float_expected_utility_step ::
  "maze \<Rightarrow> state \<Rightarrow> MazeActions \<Rightarrow> (state \<rightharpoonup> pyfloat) \<Rightarrow> outcome_map
     \<Rightarrow> MazeActions \<Rightarrow> pyfloat \<Rightarrow> error + pyfloat" where
  "float_expected_utility_step mdp current_state intended_action utilities stochastic_next_states
       stochastic_next_state expected_utility =
     (case getitem stochastic_next_states stochastic_next_state of Inl e \<Rightarrow> Inl e
      | Inr entry \<Rightarrow>
          (case lookup utilities (next_state entry) of Inl e \<Rightarrow> Inl e
           | Inr next_state_utility \<Rightarrow>
               (case transition_model mdp current_state intended_action stochastic_next_state of
                  Inl e \<Rightarrow> Inl e
                | Inr p \<Rightarrow>
                    Inr (fl_add expected_utility (fl_mul (Finite p) next_state_utility)))))"

definition float_get_expected_utility ::
  "maze \<Rightarrow> state \<Rightarrow> MazeActions \<Rightarrow> (state \<rightharpoonup> pyfloat) \<Rightarrow> error + pyfloat" where
  "float_get_expected_utility mdp current_state intended_action utilities =
     (case getitem (states mdp) current_state of Inl e \<Rightarrow> Inl e
      | Inr action_next_state_map \<Rightarrow>
          (case getitem action_next_state_map intended_action of Inl e \<Rightarrow> Inl e
           | Inr stochastic_next_states \<Rightarrow>
               for_each
                 (float_expected_utility_step mdp current_state intended_action utilities
                    stochastic_next_states)
                 (keys stochastic_next_states) (Finite 0)))"

text \<open>
  The arg-max loop of \<^verbatim>\<open>bellman_equation\<close> and \<^verbatim>\<open>policy_improvement\<close>, on
  (\<^verbatim>\<open>max_expected_utility\<close>, \<^verbatim>\<open>best_action\<close>), from (\<^verbatim>\<open>float('-inf')\<close>, \<^verbatim>\<open>None\<close>).
\<close>

definition float_best_action_step ::
  "maze \<Rightarrow> state \<Rightarrow> (state \<rightharpoonup> pyfloat) \<Rightarrow> MazeActions
     \<Rightarrow> pyfloat \<times> MazeActions option \<Rightarrow> error + (pyfloat \<times> MazeActions option)" where
  "float_best_action_step mdp current_state utilities action acc =
     (case float_get_expected_utility mdp current_state action utilities of Inl e \<Rightarrow> Inl e
      | Inr expected_utility \<Rightarrow>
          if fl_greater expected_utility (fst acc)
          then Inr (expected_utility, Some action)
          else Inr acc)"

definition float_best_action_loop ::
  "maze \<Rightarrow> state \<Rightarrow> (state \<rightharpoonup> pyfloat) \<Rightarrow> action_map
     \<Rightarrow> error + (pyfloat \<times> MazeActions option)" where
  "float_best_action_loop mdp current_state utilities action_next_state_map =
     for_each (float_best_action_step mdp current_state utilities)
       (keys action_next_state_map) (NegInf, None)"

text \<open>
  \<^verbatim>\<open>bellman_equation\<close>. The sum in the last line raises \<^verbatim>\<open>TypeError\<close> when the reward is
  \<^verbatim>\<open>None\<close>, and nothing else does: when no expected utility exceeded \<^verbatim>\<open>-inf\<close> the result is
  computed from \<^verbatim>\<open>-inf\<close>, with \<^verbatim>\<open>None\<close> as the best action.
\<close>

definition float_bellman_equation ::
  "maze \<Rightarrow> state \<Rightarrow> (state \<rightharpoonup> pyfloat) \<Rightarrow> error + (pyfloat \<times> MazeActions option)" where
  "float_bellman_equation mdp current_state current_utilities =
     (case getitem (states mdp) current_state of Inl e \<Rightarrow> Inl e
      | Inr action_next_state_map \<Rightarrow>
          (case reward_function mdp current_state of Inl e \<Rightarrow> Inl e
           | Inr current_state_reward \<Rightarrow>
               (case float_best_action_loop mdp current_state current_utilities
                       action_next_state_map of
                  Inl e \<Rightarrow> Inl e
                | Inr (max_expected_utility, best_action) \<Rightarrow>
                    (case current_state_reward of None \<Rightarrow> Inl TypeError
                     | Some r \<Rightarrow>
                         Inr (fl_add (Finite r)
                                (fl_mul (Finite (discount_factor mdp)) max_expected_utility),
                              best_action)))))"

definition float_policy_expected_utility ::
  "maze \<Rightarrow> state \<Rightarrow> (state \<rightharpoonup> MazeActions option) \<Rightarrow> (state \<rightharpoonup> pyfloat)
     \<Rightarrow> error + pyfloat" where
  "float_policy_expected_utility mdp st policy utilities =
     (case lookup policy st of Inl e \<Rightarrow> Inl e
      | Inr None \<Rightarrow>
          (case getitem (states mdp) st of Inl e \<Rightarrow> Inl e | Inr _ \<Rightarrow> Inl KeyError)
      | Inr (Some action) \<Rightarrow> float_get_expected_utility mdp st action utilities)"

record float_result =
  float_converged_utilities :: "state \<rightharpoonup> pyfloat"
  float_optimal_policy :: "state \<rightharpoonup> MazeActions option"
  float_num_iterations :: nat
  float_iteration_utilities :: "state \<rightharpoonup> pyfloat list"

definition float_make_result ::
  "maze \<Rightarrow> (state \<rightharpoonup> pyfloat) \<Rightarrow> (state \<rightharpoonup> MazeActions option)
     \<Rightarrow> (state \<rightharpoonup> pyfloat list) \<Rightarrow> error + float_result" where
  "float_make_result mdp current_utilities policy all_iteration_utilities =
     (case all_iteration_utilities (start_state mdp) of None \<Rightarrow> Inl TypeError
      | Some history \<Rightarrow>
          Inr \<lparr>float_converged_utilities = current_utilities, float_optimal_policy = policy,
               float_num_iterations = length history,
               float_iteration_utilities = all_iteration_utilities\<rparr>)"

text \<open>\<^verbatim>\<open>value_iteration\<close>: its locals, the initialising loop, the history and the sweep.\<close>

record float_vi_locals =
  fvi_current_utilities :: "state \<rightharpoonup> pyfloat"
  fvi_new_utilities :: "state \<rightharpoonup> pyfloat"
  fvi_all_iteration_utilities :: "state \<rightharpoonup> pyfloat list"
  fvi_optimal_policy :: "state \<rightharpoonup> MazeActions option"

definition float_vi_init :: "maze \<Rightarrow> float_vi_locals" where
  "float_vi_init mdp =
     fold (\<lambda>st v. v\<lparr>fvi_new_utilities := (fvi_new_utilities v)(st \<mapsto> Finite 0),
                     fvi_all_iteration_utilities := (fvi_all_iteration_utilities v)(st \<mapsto> []),
                     fvi_optimal_policy := (fvi_optimal_policy v)(st \<mapsto> None)\<rparr>)
       (keys (states mdp))
       \<lparr>fvi_current_utilities = Map.empty, fvi_new_utilities = Map.empty,
        fvi_all_iteration_utilities = Map.empty, fvi_optimal_policy = Map.empty\<rparr>"

definition float_vi_record_step :: "state \<Rightarrow> float_vi_locals \<Rightarrow> error + float_vi_locals" where
  "float_vi_record_step st v =
     (case lookup (fvi_all_iteration_utilities v) st of Inl e \<Rightarrow> Inl e
      | Inr history \<Rightarrow>
          (case lookup (fvi_current_utilities v) st of Inl e \<Rightarrow> Inl e
           | Inr u \<Rightarrow>
               Inr (v\<lparr>fvi_all_iteration_utilities :=
                        (fvi_all_iteration_utilities v)(st \<mapsto> history @ [u])\<rparr>)))"

text \<open>
  The residual is \<^verbatim>\<open>max(max_utility_difference, abs(new - current))\<close>: a NaN difference
  leaves it as it is.
\<close>

definition float_vi_sweep_step ::
  "maze \<Rightarrow> state \<Rightarrow> float_vi_locals \<times> pyfloat \<Rightarrow> error + (float_vi_locals \<times> pyfloat)" where
  "float_vi_sweep_step mdp st acc =
     (case float_bellman_equation mdp st (fvi_current_utilities (fst acc)) of Inl e \<Rightarrow> Inl e
      | Inr (updated_utility, best_action) \<Rightarrow>
          (let v = (fst acc)\<lparr>fvi_new_utilities :=
                               (fvi_new_utilities (fst acc))(st \<mapsto> updated_utility),
                             fvi_optimal_policy :=
                               (fvi_optimal_policy (fst acc))(st \<mapsto> best_action)\<rparr>
           in (case lookup (fvi_new_utilities v) st of Inl e \<Rightarrow> Inl e
               | Inr new_u \<Rightarrow>
                   (case lookup (fvi_current_utilities v) st of Inl e \<Rightarrow> Inl e
                    | Inr cur_u \<Rightarrow>
                        Inr (v, py_max (snd acc) (fl_abs (fl_sub new_u cur_u)))))))"

text \<open>
  One turn of the \<^verbatim>\<open>while True\<close> loop. The threshold is
  \<^verbatim>\<open>max_error * (1 - mdp.discount_factor) / mdp.discount_factor\<close>, and the \<^verbatim>\<open>break\<close> is taken
  when the residual is less than it.
\<close>

definition float_vi_body ::
  "maze \<Rightarrow> real \<Rightarrow> float_vi_locals \<Rightarrow> error + (float_vi_locals \<times> pyfloat \<times> bool)" where
  "float_vi_body mdp max_error v =
     (let v1 = v\<lparr>fvi_current_utilities := fvi_current_utilities v ++ fvi_new_utilities v\<rparr>
      in (case for_each float_vi_record_step (keys (states mdp)) v1 of Inl e \<Rightarrow> Inl e
          | Inr v2 \<Rightarrow>
              (case for_each (float_vi_sweep_step mdp) (keys (states mdp)) (v2, Finite 0) of
                 Inl e \<Rightarrow> Inl e
               | Inr (v3, max_utility_difference) \<Rightarrow>
                   if discount_factor mdp = 0 then Inl ZeroDivisionError
                   else Inr (v3, max_utility_difference,
                          fl_less max_utility_difference
                            (fl_div (fl_mul (Finite max_error)
                                       (fl_sub (Finite 1) (Finite (discount_factor mdp))))
                               (discount_factor mdp))))))"

partial_function (option) float_vi_loop ::
  "maze \<Rightarrow> real \<Rightarrow> float_vi_locals \<Rightarrow> (error + float_result) option" where
  "float_vi_loop mdp max_error v =
     (case float_vi_body mdp max_error v of Inl e \<Rightarrow> Some (Inl e)
      | Inr (v', max_utility_difference, stop) \<Rightarrow>
          if stop
          then Some (float_make_result mdp (fvi_current_utilities v') (fvi_optimal_policy v')
                       (fvi_all_iteration_utilities v'))
          else float_vi_loop mdp max_error v')"

definition float_value_iteration :: "maze \<Rightarrow> real \<Rightarrow> (error + float_result) option" where
  "float_value_iteration mdp max_error = float_vi_loop mdp max_error (float_vi_init mdp)"

text \<open>\<^verbatim>\<open>policy_iteration\<close>, \<^verbatim>\<open>policy_evaluation\<close> and \<^verbatim>\<open>policy_improvement\<close>.\<close>

record float_pi_locals =
  fpi_current_utilities :: "state \<rightharpoonup> pyfloat"
  fpi_policy :: "state \<rightharpoonup> MazeActions option"
  fpi_all_iteration_utilities :: "state \<rightharpoonup> pyfloat list"
  fpi_hasChanged :: bool
  fpi_num_iterations :: int

definition float_pi_init :: "maze \<Rightarrow> float_pi_locals" where
  "float_pi_init mdp =
     fold (\<lambda>st v. v\<lparr>fpi_current_utilities := (fpi_current_utilities v)(st \<mapsto> Finite 0),
                     fpi_policy := (fpi_policy v)(st \<mapsto> Some UP),
                     fpi_all_iteration_utilities :=
                       (fpi_all_iteration_utilities v)(st \<mapsto> [Finite 0])\<rparr>)
       (keys (states mdp))
       \<lparr>fpi_current_utilities = Map.empty, fpi_policy = Map.empty,
        fpi_all_iteration_utilities = Map.empty, fpi_hasChanged = True,
        fpi_num_iterations = 0\<rparr>"

type_synonym float_pe_locals =
  "(state \<rightharpoonup> pyfloat) \<times> (state \<rightharpoonup> pyfloat) \<times> (state \<rightharpoonup> pyfloat list)"

definition float_pe_init_step ::
  "(state \<rightharpoonup> pyfloat) \<Rightarrow> state \<Rightarrow> float_pe_locals \<Rightarrow> error + float_pe_locals" where
  "float_pe_init_step utilities st acc =
     (case acc of (current_utilities, updated_utilities, new_iteration_utilities) \<Rightarrow>
        (case lookup utilities st of Inl e \<Rightarrow> Inl e
         | Inr u \<Rightarrow>
             Inr (current_utilities(st \<mapsto> u), updated_utilities,
                  new_iteration_utilities(st \<mapsto> []))))"

definition float_pe_update_step ::
  "maze \<Rightarrow> (state \<rightharpoonup> MazeActions option) \<Rightarrow> state \<Rightarrow> float_pe_locals
     \<Rightarrow> error + float_pe_locals" where
  "float_pe_update_step mdp policy st acc =
     (case acc of (current_utilities, updated_utilities, new_iteration_utilities) \<Rightarrow>
        (case reward_function mdp st of Inl e \<Rightarrow> Inl e
         | Inr current_state_reward \<Rightarrow>
             (case float_policy_expected_utility mdp st policy current_utilities of
                Inl e \<Rightarrow> Inl e
              | Inr expected_utility \<Rightarrow>
                  (case current_state_reward of None \<Rightarrow> Inl TypeError
                   | Some r \<Rightarrow>
                       Inr (current_utilities,
                            updated_utilities
                              (st \<mapsto> fl_add (Finite r)
                                        (fl_mul (Finite (discount_factor mdp)) expected_utility)),
                            new_iteration_utilities)))))"

definition float_pe_copy_step :: "state \<Rightarrow> float_pe_locals \<Rightarrow> error + float_pe_locals" where
  "float_pe_copy_step st acc =
     (case acc of (current_utilities, updated_utilities, new_iteration_utilities) \<Rightarrow>
        (case lookup updated_utilities st of Inl e \<Rightarrow> Inl e
         | Inr u \<Rightarrow>
             (case lookup new_iteration_utilities st of Inl e \<Rightarrow> Inl e
              | Inr history \<Rightarrow>
                  Inr (current_utilities(st \<mapsto> u), updated_utilities,
                       new_iteration_utilities(st \<mapsto> history @ [u])))))"

definition float_pe_round ::
  "maze \<Rightarrow> (state \<rightharpoonup> MazeActions option) \<Rightarrow> float_pe_locals \<Rightarrow> error + float_pe_locals" where
  "float_pe_round mdp policy acc =
     (case for_each (float_pe_update_step mdp policy) (keys (states mdp)) acc of Inl e \<Rightarrow> Inl e
      | Inr acc' \<Rightarrow> for_each float_pe_copy_step (keys (states mdp)) acc')"

fun float_pe_rounds ::
  "nat \<Rightarrow> maze \<Rightarrow> (state \<rightharpoonup> MazeActions option) \<Rightarrow> float_pe_locals
     \<Rightarrow> error + float_pe_locals" where
  "float_pe_rounds 0 mdp policy acc = Inr acc"
| "float_pe_rounds (Suc n) mdp policy acc =
     (case float_pe_round mdp policy acc of Inl e \<Rightarrow> Inl e
      | Inr acc' \<Rightarrow> float_pe_rounds n mdp policy acc')"

definition float_policy_evaluation ::
  "maze \<Rightarrow> (state \<rightharpoonup> MazeActions option) \<Rightarrow> (state \<rightharpoonup> pyfloat) \<Rightarrow> int
     \<Rightarrow> error + ((state \<rightharpoonup> pyfloat) \<times> (state \<rightharpoonup> pyfloat list))" where
  "float_policy_evaluation mdp policy utilities num_policy_evaluation =
     (case for_each (float_pe_init_step utilities) (keys (states mdp))
             (Map.empty, Map.empty, Map.empty) of
        Inl e \<Rightarrow> Inl e
      | Inr acc \<Rightarrow>
          (case float_pe_rounds (nat num_policy_evaluation) mdp policy acc of Inl e \<Rightarrow> Inl e
           | Inr (current_utilities, updated_utilities, new_iteration_utilities) \<Rightarrow>
               Inr (current_utilities, new_iteration_utilities)))"

text \<open>
  \<^verbatim>\<open>policy_improvement\<close>, on (\<^verbatim>\<open>improved_policy\<close>, \<^verbatim>\<open>hasChanged\<close>): the best action is
  written when \<^verbatim>\<open>max_expected_utility > current_expected_utility\<close>, and the old entry
  otherwise.
\<close>

definition float_policy_improvement_step ::
  "maze \<Rightarrow> (state \<rightharpoonup> MazeActions option) \<Rightarrow> (state \<rightharpoonup> pyfloat) \<Rightarrow> state
     \<Rightarrow> (state \<rightharpoonup> MazeActions option) \<times> bool
     \<Rightarrow> error + ((state \<rightharpoonup> MazeActions option) \<times> bool)" where
  "float_policy_improvement_step mdp policy utilities st acc =
     (case getitem (states mdp) st of Inl e \<Rightarrow> Inl e
      | Inr action_next_state_map \<Rightarrow>
          (case float_best_action_loop mdp st utilities action_next_state_map of Inl e \<Rightarrow> Inl e
           | Inr (max_expected_utility, best_action) \<Rightarrow>
               (case float_policy_expected_utility mdp st policy utilities of Inl e \<Rightarrow> Inl e
                | Inr current_expected_utility \<Rightarrow>
                    if fl_greater max_expected_utility current_expected_utility
                    then Inr ((fst acc)(st \<mapsto> best_action), True)
                    else (case lookup policy st of Inl e \<Rightarrow> Inl e
                          | Inr a \<Rightarrow> Inr ((fst acc)(st \<mapsto> a), snd acc)))))"

definition float_policy_improvement ::
  "maze \<Rightarrow> (state \<rightharpoonup> MazeActions option) \<Rightarrow> (state \<rightharpoonup> pyfloat)
     \<Rightarrow> error + ((state \<rightharpoonup> MazeActions option) \<times> bool)" where
  "float_policy_improvement mdp policy utilities =
     for_each (float_policy_improvement_step mdp policy utilities) (keys (states mdp))
       (Map.empty, False)"

definition float_pi_extend_step ::
  "(state \<rightharpoonup> pyfloat list) \<Rightarrow> state \<Rightarrow> (state \<rightharpoonup> pyfloat list)
     \<Rightarrow> error + (state \<rightharpoonup> pyfloat list)" where
  "float_pi_extend_step new_iteration_utilities st all_iteration_utilities =
     (case lookup all_iteration_utilities st of Inl e \<Rightarrow> Inl e
      | Inr history \<Rightarrow>
          (case lookup new_iteration_utilities st of Inl e \<Rightarrow> Inl e
           | Inr new_entries \<Rightarrow> Inr (all_iteration_utilities(st \<mapsto> history @ new_entries))))"

definition float_pi_body :: "maze \<Rightarrow> int \<Rightarrow> float_pi_locals \<Rightarrow> error + float_pi_locals" where
  "float_pi_body mdp num_policy_evaluation v =
     (case float_policy_evaluation mdp (fpi_policy v) (fpi_current_utilities v)
             num_policy_evaluation of
        Inl e \<Rightarrow> Inl e
      | Inr (current_utilities, new_iteration_utilities) \<Rightarrow>
          (case float_policy_improvement mdp (fpi_policy v) current_utilities of Inl e \<Rightarrow> Inl e
           | Inr (policy, hasChanged) \<Rightarrow>
               (case for_each (float_pi_extend_step new_iteration_utilities) (keys (states mdp))
                       (fpi_all_iteration_utilities v) of
                  Inl e \<Rightarrow> Inl e
                | Inr all_iteration_utilities \<Rightarrow>
                    Inr \<lparr>fpi_current_utilities = current_utilities, fpi_policy = policy,
                         fpi_all_iteration_utilities = all_iteration_utilities,
                         fpi_hasChanged = hasChanged,
                         fpi_num_iterations = fpi_num_iterations v + num_policy_evaluation\<rparr>)))"

partial_function (option) float_pi_loop ::
  "maze \<Rightarrow> int \<Rightarrow> float_pi_locals \<Rightarrow> (error + float_pi_locals) option" where
  "float_pi_loop mdp num_policy_evaluation v =
     (if fpi_hasChanged v
      then (case float_pi_body mdp num_policy_evaluation v of Inl e \<Rightarrow> Some (Inl e)
            | Inr v' \<Rightarrow> float_pi_loop mdp num_policy_evaluation v')
      else Some (Inr v))"

definition float_policy_iteration :: "maze \<Rightarrow> int \<Rightarrow> (error + float_result) option" where
  "float_policy_iteration mdp num_policy_evaluation =
     (case float_pi_loop mdp num_policy_evaluation (float_pi_init mdp) of None \<Rightarrow> None
      | Some (Inl e) \<Rightarrow> Some (Inl e)
      | Some (Inr v) \<Rightarrow>
          Some (float_make_result mdp (fpi_current_utilities v) (fpi_policy v)
                  (fpi_all_iteration_utilities v)))"

text \<open>
  The expected utility of an action in the specification's terms, on floats: the stored
  outcomes of \<open>(s, a)\<close> in their order, each adding its probability times the utility of its
  next state.
\<close>

definition float_utility_of :: "(state \<rightharpoonup> pyfloat) \<Rightarrow> state \<Rightarrow> pyfloat" where
  "float_utility_of U s = (case U s of None \<Rightarrow> Finite 0 | Some u \<Rightarrow> u)"

definition float_spec_expected_utility ::
  "maze \<Rightarrow> (state \<rightharpoonup> pyfloat) \<Rightarrow> state \<Rightarrow> MazeActions \<Rightarrow> pyfloat" where
  "float_spec_expected_utility mdp U s a =
     foldl (\<lambda>acc entry.
              fl_add acc (fl_mul (Finite (probability entry)) (float_utility_of U (next_state entry))))
       (Finite 0) (stored_outcomes mdp s a)"

text \<open>The finite entries of a float utility table as real numbers, 0 elsewhere.\<close>

definition finite_utility_of :: "(state \<rightharpoonup> pyfloat) \<Rightarrow> state \<Rightarrow> real" where
  "finite_utility_of U s = (case U s of Some (Finite u) \<Rightarrow> u | _ \<Rightarrow> 0)"

text \<open>The maze that the constructor builds from the grid \<^verbatim>\<open>[[1, -1]]\<close>.\<close>

definition two_cell_maze :: "real \<Rightarrow> maze" where
  "two_cell_maze gamma =
     \<lparr>environment = [[Some 1, Some (- 1)]], start_state = (0, 0),
      states =
        [((0, 0),
          [(UP, [(UP, \<lparr>next_state = (0, 0), probability = 8 / 10\<rparr>),
                 (LEFT, \<lparr>next_state = (0, 0), probability = 1 / 10\<rparr>),
                 (RIGHT, \<lparr>next_state = (0, 1), probability = 1 / 10\<rparr>)]),
           (DOWN, [(DOWN, \<lparr>next_state = (0, 0), probability = 8 / 10\<rparr>),
                   (LEFT, \<lparr>next_state = (0, 0), probability = 1 / 10\<rparr>),
                   (RIGHT, \<lparr>next_state = (0, 1), probability = 1 / 10\<rparr>)]),
           (LEFT, [(LEFT, \<lparr>next_state = (0, 0), probability = 8 / 10\<rparr>),
                   (UP, \<lparr>next_state = (0, 0), probability = 1 / 10\<rparr>),
                   (DOWN, \<lparr>next_state = (0, 0), probability = 1 / 10\<rparr>)]),
           (RIGHT, [(RIGHT, \<lparr>next_state = (0, 1), probability = 8 / 10\<rparr>),
                    (UP, \<lparr>next_state = (0, 0), probability = 1 / 10\<rparr>),
                    (DOWN, \<lparr>next_state = (0, 0), probability = 1 / 10\<rparr>)])]),
         ((0, 1),
          [(UP, [(UP, \<lparr>next_state = (0, 1), probability = 8 / 10\<rparr>),
                 (LEFT, \<lparr>next_state = (0, 0), probability = 1 / 10\<rparr>),
                 (RIGHT, \<lparr>next_state = (0, 1), probability = 1 / 10\<rparr>)]),
           (DOWN, [(DOWN, \<lparr>next_state = (0, 1), probability = 8 / 10\<rparr>),
                   (LEFT, \<lparr>next_state = (0, 0), probability = 1 / 10\<rparr>),
                   (RIGHT, \<lparr>next_state = (0, 1), probability = 1 / 10\<rparr>)]),
           (LEFT, [(LEFT, \<lparr>next_state = (0, 0), probability = 8 / 10\<rparr>),
                   (UP, \<lparr>next_state = (0, 1), probability = 1 / 10\<rparr>),
                   (DOWN, \<lparr>next_state = (0, 1), probability = 1 / 10\<rparr>)]),
           (RIGHT, [(RIGHT, \<lparr>next_state = (0, 1), probability = 8 / 10\<rparr>),
                    (UP, \<lparr>next_state = (0, 1), probability = 1 / 10\<rparr>),
                    (DOWN, \<lparr>next_state = (0, 1), probability = 1 / 10\<rparr>)])])],
      actions = [UP, DOWN, LEFT, RIGHT], discount_factor = gamma\<rparr>"

section \<open>Properties\<close>

subsection \<open>Loops and containers\<close>

lemma for_each_invariant:
  assumes "for_each body xs s = Inr s'" and "P s"
    and "\<And>x t t'. x \<in> set xs \<Longrightarrow> P t \<Longrightarrow> body x t = Inr t' \<Longrightarrow> P t'"
  shows "P s'"
  using assms
proof (induction xs arbitrary: s)
  case Nil
  then show ?case by simp
next
  case (Cons x xs)
  from Cons.prems(1) obtain t where t: "body x s = Inr t" and rest: "for_each body xs t = Inr s'"
    by (auto split: sum.splits)
  have "P t" by (rule Cons.prems(3) [of x s t]) (simp_all add: Cons.prems(2) t)
  show ?case
  proof (rule Cons.IH [OF rest \<open>P t\<close>])
    fix y u u' assume "y \<in> set xs" "P u" "body y u = Inr u'"
    then show "P u'" using Cons.prems(3) [of y u u'] by simp
  qed
qed

lemma for_each_total:
  assumes "P s"
    and "\<And>x t. x \<in> set xs \<Longrightarrow> P t \<Longrightarrow> \<exists>t'. body x t = Inr t' \<and> P t'"
  shows "\<exists>s'. for_each body xs s = Inr s' \<and> P s'"
  using assms
proof (induction xs arbitrary: s)
  case Nil
  then show ?case by simp
next
  case (Cons x xs)
  from Cons.prems obtain t where t: "body x s = Inr t" "P t" by fastforce
  from Cons.IH [OF t(2)] Cons.prems(2) obtain s' where "for_each body xs t = Inr s' \<and> P s'"
    by auto
  then show ?case using t by simp
qed

subsection \<open>The constructor of the maze\<close>

lemma is_wall_Inr: "is_wall env st = Inr w \<Longrightarrow> w = (\<not> valid_cell env st)"
  by (auto simp: is_wall_def valid_cell_def py_index_def hd_conv_nth split: if_splits sum.splits)

lemma non_wall_cells_Inr:
  "non_wall_cells env cs = Inr xs \<Longrightarrow> xs = filter (\<lambda>c. is_wall env c = Inr False) cs"
proof (induction cs arbitrary: xs)
  case Nil
  then show ?case by simp
next
  case (Cons c cs)
  then show ?case by (auto split: sum.splits if_splits)
qed

lemma distinct_cell_rows:
  "distinct rs \<Longrightarrow> distinct cs \<Longrightarrow>
   distinct (concat (map (\<lambda>row. map (\<lambda>col. (int row, int col)) cs) rs))"
  by (induction rs) (auto simp: distinct_map inj_on_def)

lemma distinct_grid_cells: "distinct (grid_cells env)"
  unfolding grid_cells_def by (rule distinct_cell_rows) simp_all

lemma set_grid_cells:
  "set (grid_cells env) = {(int r, int c) | r c. r < length env \<and> c < length (hd env)}"
  by (auto simp: grid_cells_def)

lemma valid_cell_in_grid_cells: "valid_cell env st \<Longrightarrow> st \<in> set (grid_cells env)"
proof -
  assume v: "valid_cell env st"
  then have "st = (int (nat (fst st)), int (nat (snd st)))"
    "nat (fst st) < length env" "nat (snd st) < length (hd env)"
    by (auto simp: valid_cell_def)
  then show ?thesis unfolding set_grid_cells by blast
qed

lemma get_next_state_probabilities_Inr:
  assumes "get_next_state_probabilities env st a = Inr omap"
  shows "omap = spec_outcomes env st a"
proof -
  from assms obtain wu wd wl wr where w:
    "is_wall env (fst st - 1, snd st) = Inr wu" "is_wall env (fst st + 1, snd st) = Inr wd"
    "is_wall env (fst st, snd st - 1) = Inr wl" "is_wall env (fst st, snd st + 1) = Inr wr"
    by (auto simp: get_next_state_probabilities_def split: sum.splits)
  have n: "nominal_neighbor st UP = (fst st - 1, snd st)" "nominal_neighbor st DOWN = (fst st + 1, snd st)"
    "nominal_neighbor st LEFT = (fst st, snd st - 1)" "nominal_neighbor st RIGHT = (fst st, snd st + 1)"
    by (simp_all add: nominal_neighbor_def)
  have l: "landing env st UP = (if wu then st else (fst st - 1, snd st))"
    "landing env st DOWN = (if wd then st else (fst st + 1, snd st))"
    "landing env st LEFT = (if wl then st else (fst st, snd st - 1))"
    "landing env st RIGHT = (if wr then st else (fst st, snd st + 1))"
    using w [THEN is_wall_Inr] by (simp_all add: landing_def n)
  show ?thesis using assms
    by (cases a) (simp_all add: get_next_state_probabilities_def w Let_def spec_outcomes_def l)
qed

lemma get_next_state_probabilities_walls:
  assumes "get_next_state_probabilities env st a = Inr omap"
  shows "\<exists>w. is_wall env (nominal_neighbor st d) = Inr w"
  using assms
  by (cases d) (auto simp: get_next_state_probabilities_def nominal_neighbor_def split: sum.splits)

lemma build_action_next_state_map_Inr:
  assumes "build_action_next_state_map env st = Inr amap"
  shows "amap = spec_action_map env st \<and> (\<forall>d. \<exists>w. is_wall env (nominal_neighbor st d) = Inr w)"
proof -
  from assms obtain o1 o2 o3 o4 where o:
    "get_next_state_probabilities env st UP = Inr o1"
    "get_next_state_probabilities env st DOWN = Inr o2"
    "get_next_state_probabilities env st LEFT = Inr o3"
    "get_next_state_probabilities env st RIGHT = Inr o4"
    and amap: "amap = [(UP, o1), (DOWN, o2), (LEFT, o3), (RIGHT, o4)]"
    by (auto simp: build_action_next_state_map_def split: sum.splits)
  show ?thesis
    using o [THEN get_next_state_probabilities_Inr] get_next_state_probabilities_walls [OF o(1)]
    by (simp add: amap spec_action_map_def)
qed

lemma table_Inr:
  assumes "map_each (\<lambda>st. case build_action_next_state_map env st of Inl e \<Rightarrow> Inl e
                        | Inr m \<Rightarrow> Inr (st, m)) cells = Inr table"
  shows "table = map (\<lambda>st. (st, spec_action_map env st)) cells
         \<and> (\<forall>st\<in>set cells. \<forall>d. \<exists>w. is_wall env (nominal_neighbor st d) = Inr w)"
  using assms
proof (induction cells arbitrary: table)
  case Nil
  then show ?case by simp
next
  case (Cons c cs)
  from Cons.prems obtain m rest where m: "build_action_next_state_map env c = Inr m"
    and rest: "map_each (\<lambda>st. case build_action_next_state_map env st of Inl e \<Rightarrow> Inl e
                        | Inr m \<Rightarrow> Inr (st, m)) cs = Inr rest"
    and table: "table = (c, m) # rest"
    by (auto split: sum.splits)
  show ?case
    using Cons.IH [OF rest] build_action_next_state_map_Inr [OF m] by (simp add: table)
qed

lemma Maze_init_Inr:
  assumes "Maze_init env start gamma = Inr mdp"
  shows "environment mdp = env" "start_state mdp = start" "discount_factor mdp = gamma"
    "actions mdp = [UP, DOWN, LEFT, RIGHT]"
    "states mdp = map (\<lambda>st. (st, spec_action_map env st))
                    (filter (\<lambda>c. is_wall env c = Inr False) (grid_cells env))"
    "\<forall>st\<in>set (keys (states mdp)). \<forall>d. \<exists>w. is_wall env (nominal_neighbor st d) = Inr w"
proof -
  from assms obtain cells table where
    cells: "non_wall_cells env (grid_cells env) = Inr cells"
    and table: "map_each (\<lambda>st. case build_action_next_state_map env st of Inl e \<Rightarrow> Inl e
                        | Inr m \<Rightarrow> Inr (st, m)) cells = Inr table"
    and mdp: "mdp = \<lparr>environment = env, start_state = start, states = table,
                    actions = [UP, DOWN, LEFT, RIGHT], discount_factor = gamma\<rparr>"
    by (auto simp: Maze_init_def split: sum.splits)
  show "environment mdp = env" "start_state mdp = start" "discount_factor mdp = gamma"
    "actions mdp = [UP, DOWN, LEFT, RIGHT]"
    by (simp_all add: mdp)
  have t: "table = map (\<lambda>st. (st, spec_action_map env st)) cells"
    using table_Inr [OF table] by simp
  show "states mdp = map (\<lambda>st. (st, spec_action_map env st))
                    (filter (\<lambda>c. is_wall env c = Inr False) (grid_cells env))"
    using non_wall_cells_Inr [OF cells] by (simp add: mdp t)
  have "keys (states mdp) = cells" by (simp add: mdp t keys_def comp_def)
  then show "\<forall>st\<in>set (keys (states mdp)). \<forall>d. \<exists>w. is_wall env (nominal_neighbor st d) = Inr w"
    using table_Inr [OF table] by simp
qed

lemma Maze_init_keys:
  assumes "Maze_init env start gamma = Inr mdp"
  shows "keys (states mdp) = filter (\<lambda>c. is_wall env c = Inr False) (grid_cells env)"
  by (simp add: Maze_init_Inr(5) [OF assms] keys_def comp_def)

lemma Maze_init_key_iff:
  assumes "Maze_init env start gamma = Inr mdp"
  shows "st \<in> set (keys (states mdp)) \<longleftrightarrow> is_wall env st = Inr False"
  using is_wall_Inr [of env st False] valid_cell_in_grid_cells [of env st]
  by (auto simp: Maze_init_keys [OF assms])

lemma map_of_tabulate: "k \<in> set xs \<Longrightarrow> map_of (map (\<lambda>x. (x, f x)) xs) k = Some (f k)"
  by (induction xs) auto

lemma Maze_init_getitem:
  assumes "Maze_init env start gamma = Inr mdp" and "st \<in> set (keys (states mdp))"
  shows "getitem (states mdp) st = Inr (spec_action_map env st)"
proof -
  have "st \<in> set (filter (\<lambda>c. is_wall env c = Inr False) (grid_cells env))"
    using assms(2) by (simp add: Maze_init_keys [OF assms(1)])
  then show ?thesis
    unfolding getitem_def Maze_init_Inr(5) [OF assms(1)] by (simp only: map_of_tabulate option.case)
qed

lemma getitem_spec_action_map: "getitem (spec_action_map env st) a = Inr (spec_outcomes env st a)"
  by (cases a) (simp_all add: getitem_def spec_action_map_def)

lemma Maze_init_landing:
  assumes "Maze_init env start gamma = Inr mdp" and "st \<in> set (keys (states mdp))"
  shows "landing env st d \<in> set (keys (states mdp))"
proof (cases "valid_cell env (nominal_neighbor st d)")
  case True
  from Maze_init_Inr(6) [OF assms(1)] assms(2)
  obtain w where w: "is_wall env (nominal_neighbor st d) = Inr w" by blast
  with is_wall_Inr [OF w] True have "is_wall env (nominal_neighbor st d) = Inr False" by simp
  then show ?thesis using True by (simp add: landing_def Maze_init_key_iff [OF assms(1)])
next
  case False
  then show ?thesis using assms(2) by (simp add: landing_def)
qed

lemma spec_outcomes_entries:
  "(k, oc) \<in> set (spec_outcomes env st a) \<Longrightarrow> \<exists>d. next_state oc = landing env st d"
  by (cases a) (auto simp: spec_outcomes_def)

lemma Maze_init_keys_unique:
  assumes "Maze_init env start gamma = Inr mdp"
  shows "dict_keys_unique mdp"
proof -
  have 1: "distinct (keys (states mdp))"
    by (simp add: Maze_init_keys [OF assms] distinct_grid_cells)
  have 2: "distinct (keys (spec_action_map env st))" for st
    by (simp add: spec_action_map_def keys_def)
  have 3: "distinct (keys (spec_outcomes env st a))" for st a
    by (cases a) (simp_all add: spec_outcomes_def keys_def)
  have 4: "(a, outcomes) \<in> set (spec_action_map env st) \<Longrightarrow> outcomes = spec_outcomes env st a"
    for a outcomes st
    by (auto simp: spec_action_map_def)
  have 5: "distinct (keys action_map) \<and> (\<forall>(a, outcomes) \<in> set action_map. distinct (keys outcomes))"
    if "(st, action_map) \<in> set (states mdp)" for st action_map
  proof -
    from that have am: "action_map = spec_action_map env st"
      by (auto simp: Maze_init_Inr(5) [OF assms])
    show ?thesis unfolding am using 2 [of st] 3 [of st] 4 [of _ _ st] by blast
  qed
  show ?thesis
    unfolding dict_keys_unique_def using 1 5 by blast
qed

text \<open>
  Claim C2. In a maze that the constructor built, every state has, for every action,
  an outcome map of exactly three entries under three different keys, whose
  probabilities add up to 1, and every next state stored there is a state of the maze
  and no wall. The solvers are functions of the maze and return no maze, so the table
  stays as built.
\<close>

theorem outcome_maps_are_distributions:
  assumes "Maze_init env start gamma = Inr mdp"
    and "st \<in> set (keys (states mdp))"
  shows "\<exists>action_map outcomes.
           getitem (states mdp) st = Inr action_map
         \<and> getitem action_map a = Inr outcomes
         \<and> length outcomes = 3
         \<and> distinct (keys outcomes)
         \<and> sum_list (map (\<lambda>(actual, entry). probability entry) outcomes) = 1
         \<and> (\<forall>(actual, entry) \<in> set outcomes.
               next_state entry \<in> set (keys (states mdp))
             \<and> is_wall env (next_state entry) = Inr False)"
proof -
  have 1: "length (spec_outcomes env st a) = 3" by (cases a) (simp_all add: spec_outcomes_def)
  have 2: "distinct (keys (spec_outcomes env st a))"
    by (cases a) (simp_all add: spec_outcomes_def keys_def)
  have 3: "sum_list (map (\<lambda>(actual, entry). probability entry) (spec_outcomes env st a)) = 1"
    by (cases a) (simp_all add: spec_outcomes_def)
  have 4: "\<forall>(actual, entry) \<in> set (spec_outcomes env st a).
               next_state entry \<in> set (keys (states mdp))
             \<and> is_wall env (next_state entry) = Inr False"
    using spec_outcomes_entries [of _ _ env st a] Maze_init_landing [OF assms]
      Maze_init_key_iff [OF assms(1)] by fastforce
  show ?thesis
    using Maze_init_getitem [OF assms] getitem_spec_action_map [of env st a] 1 2 3 4 by blast
qed

subsection \<open>The outcome maps and the two queries\<close>

lemma Maze_init_one_cell: "Maze_init [[Some r]] (0, 0) gamma = Inr (one_cell_maze r gamma)"
  by (simp add: Maze_init_def grid_cells_def is_wall_def py_index_def
      build_action_next_state_map_def get_next_state_probabilities_def one_cell_maze_def Let_def)

lemma Maze_init_walled: "Maze_init [[Some 1, None]] (0, 0) gamma = Inr (walled_maze gamma)"
  by (simp add: Maze_init_def grid_cells_def is_wall_def py_index_def upt_rec
      build_action_next_state_map_def get_next_state_probabilities_def one_cell_maze_def
      walled_maze_def Let_def)

lemma keys_one_cell: "keys (states (one_cell_maze r gamma)) = [(0, 0)]"
  by (simp add: one_cell_maze_def keys_def)

lemma keys_walled: "keys (states (walled_maze gamma)) = [(0, 0)]"
  by (simp add: walled_maze_def keys_one_cell)

theorem outcome_maps_are_distributions_witness:
  "Maze_init [[Some 1, None]] (0, 0) (1 / 2) = Inr (walled_maze (1 / 2))
   \<and> (0, 0) \<in> set (keys (states (walled_maze (1 / 2))))
   \<and> (\<exists>action_map outcomes.
           getitem (states (walled_maze (1 / 2))) (0, 0) = Inr action_map
         \<and> getitem action_map RIGHT = Inr outcomes
         \<and> length outcomes = 3
         \<and> distinct (keys outcomes)
         \<and> sum_list (map (\<lambda>(actual, entry). probability entry) outcomes) = 1
         \<and> (\<forall>(actual, entry) \<in> set outcomes.
               next_state entry \<in> set (keys (states (walled_maze (1 / 2))))
             \<and> is_wall [[Some 1, None]] (next_state entry) = Inr False))"
proof -
  have h1: "Maze_init [[Some 1, None]] (0, 0) (1 / 2) = Inr (walled_maze (1 / 2))"
    by (rule Maze_init_walled)
  have h2: "(0, 0) \<in> set (keys (states (walled_maze (1 / 2))))"
    by (simp add: keys_walled)
  show ?thesis
    using h1 h2 outcome_maps_are_distributions [OF h1 h2, of RIGHT] by simp
qed

text \<open>
  Claim C6. For every state of a maze that the constructor built and every intended
  action, the stored outcome map is the one the specification describes: the intended
  direction with probability 0.8, then the two perpendicular directions with
  probability 0.1 each, each landing on the nominal neighbour, or on the state itself
  when that neighbour is a wall or off the grid. The reverse direction is no key of it.
\<close>

theorem perpendicular_drift_outcomes:
  assumes "Maze_init env start gamma = Inr mdp"
    and "st \<in> set (keys (states mdp))"
  shows "\<exists>action_map outcomes.
           getitem (states mdp) st = Inr action_map
         \<and> getitem action_map a = Inr outcomes
         \<and> outcomes = spec_outcomes env st a
         \<and> reverse_action a \<notin> set (keys outcomes)"
proof -
  have "reverse_action a \<notin> set (keys (spec_outcomes env st a))"
    by (cases a) (simp_all add: spec_outcomes_def keys_def)
  then show ?thesis
    using Maze_init_getitem [OF assms] getitem_spec_action_map [of env st a] by simp
qed

theorem perpendicular_drift_outcomes_witness:
  "Maze_init [[Some 1, None]] (0, 0) (1 / 2) = Inr (walled_maze (1 / 2))
   \<and> (0, 0) \<in> set (keys (states (walled_maze (1 / 2))))
   \<and> (\<exists>action_map.
           getitem (states (walled_maze (1 / 2))) (0, 0) = Inr action_map
         \<and> getitem action_map UP
             = Inr [(UP, \<lparr>next_state = (0, 0), probability = 8 / 10\<rparr>),
                    (LEFT, \<lparr>next_state = (0, 0), probability = 1 / 10\<rparr>),
                    (RIGHT, \<lparr>next_state = (0, 0), probability = 1 / 10\<rparr>)])"
proof -
  have h1: "Maze_init [[Some 1, None]] (0, 0) (1 / 2) = Inr (walled_maze (1 / 2))"
    by (rule Maze_init_walled)
  have h2: "(0, 0) \<in> set (keys (states (walled_maze (1 / 2))))"
    by (simp add: keys_walled)
  have "spec_outcomes [[Some 1, None]] (0, 0) UP
          = [(UP, \<lparr>next_state = (0, 0), probability = 8 / 10\<rparr>),
             (LEFT, \<lparr>next_state = (0, 0), probability = 1 / 10\<rparr>),
             (RIGHT, \<lparr>next_state = (0, 0), probability = 1 / 10\<rparr>)]"
    by (simp add: spec_outcomes_def landing_def nominal_neighbor_def valid_cell_def)
  then show ?thesis
    using h1 h2 perpendicular_drift_outcomes [OF h1 h2, of UP] by auto
qed

lemma getitem_KeyError: "k \<notin> set (keys d) \<Longrightarrow> getitem d k = Inl KeyError"
proof -
  assume "k \<notin> set (keys d)"
  then have "map_of d k = None" by (simp add: keys_def map_of_eq_None_iff)
  then show ?thesis by (simp add: getitem_def)
qed

text \<open>
  Claim C8, as the code has it. \<^verbatim>\<open>transition_model\<close> fails with \<^verbatim>\<open>KeyError\<close> for every
  state that is no key of the state table. \<^verbatim>\<open>reward_function\<close> checks nothing: it fails
  exactly when the row or the column index is outside Python's index range, and for a
  wall cell inside the grid it returns the stored wall marker \<^verbatim>\<open>None\<close>.
\<close>

theorem invalid_state_queries:
  "(st \<notin> set (keys (states mdp)) \<longrightarrow> transition_model mdp st a a' = Inl KeyError)
   \<and> ((\<exists>e. reward_function mdp st = Inl e) \<longleftrightarrow>
        \<not> (- int (length (environment mdp)) \<le> fst st \<and> fst st < int (length (environment mdp))
           \<and> - int (length (environment mdp ! python_position (environment mdp) (fst st))) \<le> snd st
           \<and> snd st < int (length (environment mdp ! python_position (environment mdp) (fst st)))))
   \<and> (0 \<le> fst st \<and> fst st < int (length (environment mdp))
        \<and> 0 \<le> snd st \<and> snd st < int (length (hd (environment mdp)))
        \<and> is_wall (environment mdp) st = Inr True
      \<longrightarrow> reward_function mdp st = Inr None)"
proof (intro conjI impI)
  assume "st \<notin> set (keys (states mdp))"
  then show "transition_model mdp st a a' = Inl KeyError"
    by (simp add: transition_model_def getitem_KeyError)
next
  show "(\<exists>e. reward_function mdp st = Inl e) \<longleftrightarrow>
        \<not> (- int (length (environment mdp)) \<le> fst st \<and> fst st < int (length (environment mdp))
           \<and> - int (length (environment mdp ! python_position (environment mdp) (fst st))) \<le> snd st
           \<and> snd st < int (length (environment mdp ! python_position (environment mdp) (fst st))))"
    by (auto simp: reward_function_def py_index_def python_position_def
        split: sum.splits if_splits)
next
  assume "0 \<le> fst st \<and> fst st < int (length (environment mdp))
        \<and> 0 \<le> snd st \<and> snd st < int (length (hd (environment mdp)))
        \<and> is_wall (environment mdp) st = Inr True"
  then show "reward_function mdp st = Inr None"
    by (auto simp: reward_function_def is_wall_def py_index_def hd_conv_nth
        split: sum.splits if_splits)
qed

theorem invalid_state_queries_witness:
  "(0, 1) \<notin> set (keys (states (walled_maze (1 / 2))))
   \<and> transition_model (walled_maze (1 / 2)) (0, 1) UP UP = Inl KeyError
   \<and> is_wall (environment (walled_maze (1 / 2))) (0, 1) = Inr True
   \<and> reward_function (walled_maze (1 / 2)) (0, 1) = Inr None
   \<and> reward_function (walled_maze (1 / 2)) (0, 2) = Inl IndexError"
  using invalid_state_queries [of "(0, 1)" "walled_maze (1 / 2)" UP UP]
    invalid_state_queries [of "(0, 2)" "walled_maze (1 / 2)" UP UP]
  by (simp add: keys_one_cell walled_maze_def is_wall_def py_index_def reward_function_def)

text \<open>
  The claim as written fails: in the maze \<^verbatim>\<open>[[1, W]]\<close> the cell (0, 1) is a wall and
  (-1, 0) is off the grid, neither is a state, and \<^verbatim>\<open>reward_function\<close> returns normally
  for both.
\<close>

theorem reward_of_wall_counterexample:
  "Maze_init [[Some 1, None]] (0, 0) (1 / 2) = Inr (walled_maze (1 / 2))
   \<and> is_wall [[Some 1, None]] (0, 1) = Inr True
   \<and> (0, 1) \<notin> set (keys (states (walled_maze (1 / 2))))
   \<and> reward_function (walled_maze (1 / 2)) (0, 1) = Inr None
   \<and> is_wall [[Some 1, None]] (-1, 0) = Inr True
   \<and> (-1, 0) \<notin> set (keys (states (walled_maze (1 / 2))))
   \<and> reward_function (walled_maze (1 / 2)) (-1, 0) = Inr (Some 1)"
  by (simp add: Maze_init_walled keys_one_cell is_wall_def py_index_def reward_function_def
      walled_maze_def)

subsection \<open>Expected utilities and the arg-max loop\<close>

lemma getitem_Inr: "getitem d k = Inr v \<Longrightarrow> map_of d k = Some v"
  by (simp add: getitem_def split: option.splits)

lemma getitem_Inr_mem: "getitem d k = Inr v \<Longrightarrow> (k, v) \<in> set d"
  by (simp add: getitem_Inr map_of_SomeD)

lemma getitem_key: "k \<in> set (keys d) \<Longrightarrow> \<exists>v. getitem d k = Inr v \<and> (k, v) \<in> set d"
proof -
  assume "k \<in> set (keys d)"
  then have "map_of d k \<noteq> None" by (simp add: keys_def map_of_eq_None_iff)
  then obtain v where v: "map_of d k = Some v" by blast
  then show ?thesis by (simp add: getitem_def map_of_SomeD)
qed

lemma lookup_Inr: "lookup d k = Inr v \<longleftrightarrow> d k = Some v"
  by (simp add: lookup_def split: option.splits)

lemma for_each_each:
  "for_each body xs s = Inr s' \<Longrightarrow> x \<in> set xs \<Longrightarrow> \<exists>t t'. body x t = Inr t'"
proof (induction xs arbitrary: s)
  case Nil
  then show ?case by simp
next
  case (Cons y ys)
  from Cons.prems(1) obtain t where t: "body y s = Inr t" and rest: "for_each body ys t = Inr s'"
    by (auto split: sum.splits)
  show ?case
  proof (cases "x = y")
    case True
    then show ?thesis using t by blast
  next
    case False
    then show ?thesis using Cons.IH [OF rest] Cons.prems(2) by simp
  qed
qed

lemma for_each_sum:
  fixes acc :: real
  assumes "for_each body ks acc = Inr v"
    and "\<And>k t t'. k \<in> set ks \<Longrightarrow> body k t = Inr t' \<Longrightarrow> t' = t + g k"
  shows "v = acc + sum_list (map g ks)"
  using assms
proof (induction ks arbitrary: acc)
  case Nil
  then show ?case by simp
next
  case (Cons k ks)
  from Cons.prems(1) obtain t where t: "body k acc = Inr t" and rest: "for_each body ks t = Inr v"
    by (auto split: sum.splits)
  have "t = acc + g k" using Cons.prems(2) [of k acc t] t by simp
  moreover have "v = t + sum_list (map g ks)"
    by (rule Cons.IH [OF rest]) (use Cons.prems(2) in simp)
  ultimately show ?case by simp
qed

text \<open>The term that one stored outcome adds to an expected utility.\<close>

lemma expected_utility_step_Inr:
  assumes "expected_utility_step mdp st a U outcomes k acc = Inr acc'"
    and "getitem (states mdp) st = Inr action_map" and "getitem action_map a = Inr outcomes"
  shows "\<exists>entry u. map_of outcomes k = Some entry \<and> U (next_state entry) = Some u
           \<and> transition_model mdp st a k = Inr (probability entry)
           \<and> acc' = acc + probability entry * u"
  using assms
  by (auto simp: expected_utility_step_def transition_model_def lookup_Inr
      dest!: getitem_Inr split: sum.splits)

lemma get_expected_utility_Inr:
  assumes "get_expected_utility mdp st a U = Inr v"
  shows "\<exists>action_map outcomes.
           getitem (states mdp) st = Inr action_map \<and> getitem action_map a = Inr outcomes
         \<and> (\<forall>k \<in> set (keys outcomes). \<exists>entry u.
               map_of outcomes k = Some entry \<and> U (next_state entry) = Some u)
         \<and> v = sum_list (map (outcome_term U outcomes) (keys outcomes))"
proof -
  from assms obtain action_map outcomes where
    g: "getitem (states mdp) st = Inr action_map" "getitem action_map a = Inr outcomes"
    and f: "for_each (expected_utility_step mdp st a U outcomes) (keys outcomes) 0 = Inr v"
    by (auto simp: get_expected_utility_def split: sum.splits)
  have "v = 0 + sum_list (map (outcome_term U outcomes) (keys outcomes))"
  proof (rule for_each_sum [OF f])
    fix k t t'
    assume "expected_utility_step mdp st a U outcomes k t = Inr t'"
    from expected_utility_step_Inr [OF this g]
    show "t' = t + outcome_term U outcomes k" by (auto simp: outcome_term_def)
  qed
  moreover have "\<exists>entry u. map_of outcomes k = Some entry \<and> U (next_state entry) = Some u"
    if "k \<in> set (keys outcomes)" for k
  proof -
    from for_each_each [OF f that] obtain t t' where
      "expected_utility_step mdp st a U outcomes k t = Inr t'" by blast
    from expected_utility_step_Inr [OF this g] show ?thesis by blast
  qed
  ultimately show ?thesis using g by simp
qed

lemma best_action_step_Inr:
  assumes "best_action_step mdp st U a acc = Inr acc'"
  shows "\<exists>v. get_expected_utility mdp st a U = Inr v
           \<and> (acc' = (Some v, Some a) \<and> (\<forall>x0. fst acc = Some x0 \<longrightarrow> x0 < v)
              \<or> acc' = acc \<and> (\<exists>x0. fst acc = Some x0 \<and> v \<le> x0))"
  using assms
  by (auto simp: best_action_step_def split: sum.splits option.splits if_splits)

lemma best_action_for_each:
  assumes "for_each (best_action_step mdp st U) as acc = Inr (mx, b)"
  shows "(\<forall>a\<in>set as. \<exists>v x. get_expected_utility mdp st a U = Inr v \<and> mx = Some x \<and> v \<le> x)
       \<and> (\<forall>x0. fst acc = Some x0 \<longrightarrow> (\<exists>x. mx = Some x \<and> x0 \<le> x))
       \<and> ((mx, b) = acc
          \<or> (\<exists>a\<in>set as. \<exists>x. mx = Some x \<and> b = Some a
                \<and> get_expected_utility mdp st a U = Inr x))"
  using assms
proof (induction as arbitrary: acc)
  case Nil
  then show ?case by simp
next
  case (Cons a as)
  from Cons.prems obtain acc1 where
    step: "best_action_step mdp st U a acc = Inr acc1"
    and rest: "for_each (best_action_step mdp st U) as acc1 = Inr (mx, b)"
    by (auto split: sum.splits)
  from best_action_step_Inr [OF step] obtain v where
    v: "get_expected_utility mdp st a U = Inr v"
    and c: "acc1 = (Some v, Some a) \<and> (\<forall>x0. fst acc = Some x0 \<longrightarrow> x0 < v)
              \<or> acc1 = acc \<and> (\<exists>x0. fst acc = Some x0 \<and> v \<le> x0)"
    by blast
  note ih = Cons.IH [OF rest]
  from c obtain y where y: "fst acc1 = Some y" "v \<le> y" by auto
  with ih obtain x where x: "mx = Some x" "y \<le> x" by blast
  have 1: "\<forall>a'\<in>set (a # as). \<exists>v x. get_expected_utility mdp st a' U = Inr v \<and> mx = Some x \<and> v \<le> x"
    using ih v x y by auto
  have 2: "\<forall>x0. fst acc = Some x0 \<longrightarrow> (\<exists>x. mx = Some x \<and> x0 \<le> x)"
    using c x y by auto
  have 3: "(mx, b) = acc
          \<or> (\<exists>a'\<in>set (a # as). \<exists>x. mx = Some x \<and> b = Some a'
                \<and> get_expected_utility mdp st a' U = Inr x)"
    using ih c v by auto
  show ?case using 1 2 3 by blast
qed

lemma best_action_loop_Inr:
  assumes "best_action_loop mdp st U action_map = Inr (mx, b)" and "action_map \<noteq> []"
  shows "\<exists>x a. mx = Some x \<and> b = Some a \<and> a \<in> set (keys action_map)
           \<and> get_expected_utility mdp st a U = Inr x
           \<and> (\<forall>a'\<in>set (keys action_map). \<exists>v. get_expected_utility mdp st a' U = Inr v \<and> v \<le> x)"
proof -
  from assms(2) obtain a0 where a0: "a0 \<in> set (keys action_map)"
    by (cases action_map) (auto simp: keys_def)
  note l = best_action_for_each [OF assms(1) [unfolded best_action_loop_def]]
  from l a0 obtain x where x: "mx = Some x" by blast
  with l obtain a where "a \<in> set (keys action_map)" "b = Some a"
    "get_expected_utility mdp st a U = Inr x" by auto
  moreover have "\<forall>a'\<in>set (keys action_map). \<exists>v. get_expected_utility mdp st a' U = Inr v \<and> v \<le> x"
    using l x by auto
  ultimately show ?thesis using x by blast
qed

lemma best_action_loop_empty: "best_action_loop mdp st U [] = Inr (None, None)"
  by (simp add: best_action_loop_def keys_def)

lemma best_action_loop_None:
  assumes "best_action_loop mdp st U action_map = Inr (mx, b)"
  shows "b = None \<longleftrightarrow> mx = None"
proof (cases "action_map = []")
  case True
  then show ?thesis using assms by (simp add: best_action_loop_empty)
next
  case False
  from best_action_loop_Inr [OF assms False] show ?thesis by auto
qed


subsection \<open>One turn of value iteration\<close>

lemma vi_record_step_Inr:
  assumes "vi_record_step st v = Inr v'"
  shows "\<exists>h u. vi_all_iteration_utilities v st = Some h \<and> vi_current_utilities v st = Some u
           \<and> v' = v\<lparr>vi_all_iteration_utilities := (vi_all_iteration_utilities v)(st \<mapsto> h @ [u])\<rparr>"
  using assms by (auto simp: vi_record_step_def lookup_Inr split: sum.splits)

lemma vi_record_keeps:
  assumes "for_each vi_record_step xs v = Inr v'"
  shows "vi_current_utilities v' = vi_current_utilities v
       \<and> vi_new_utilities v' = vi_new_utilities v
       \<and> vi_optimal_policy v' = vi_optimal_policy v"
proof (rule for_each_invariant [OF assms, where
      P = "\<lambda>t. vi_current_utilities t = vi_current_utilities v
       \<and> vi_new_utilities t = vi_new_utilities v
       \<and> vi_optimal_policy t = vi_optimal_policy v"])
  show "vi_current_utilities v = vi_current_utilities v
       \<and> vi_new_utilities v = vi_new_utilities v
       \<and> vi_optimal_policy v = vi_optimal_policy v" by simp
next
  fix x t t'
  assume "vi_current_utilities t = vi_current_utilities v
       \<and> vi_new_utilities t = vi_new_utilities v
       \<and> vi_optimal_policy t = vi_optimal_policy v" "vi_record_step x t = Inr t'"
  then show "vi_current_utilities t' = vi_current_utilities v
       \<and> vi_new_utilities t' = vi_new_utilities v
       \<and> vi_optimal_policy t' = vi_optimal_policy v"
    by (auto dest!: vi_record_step_Inr)
qed

lemma vi_sweep_step_Inr:
  assumes "vi_sweep_step mdp st (v, d) = Inr (v', d')"
  shows "\<exists>u b c. bellman_equation mdp st (vi_current_utilities v) = Inr (u, b)
           \<and> vi_current_utilities v st = Some c
           \<and> v' = v\<lparr>vi_new_utilities := (vi_new_utilities v)(st \<mapsto> u),
                     vi_optimal_policy := (vi_optimal_policy v)(st \<mapsto> b)\<rparr>
           \<and> d' = max d \<bar>u - c\<bar>"
  using assms
  by (auto simp: vi_sweep_step_def lookup_Inr Let_def split: sum.splits prod.splits)

lemma Max_insert_max:
  fixes d :: real
  assumes "finite S"
  shows "Max (insert (max d a) S) = Max (insert d (insert a S))"
proof (cases "S = {}")
  case True
  then show ?thesis by simp
next
  case False
  then show ?thesis using assms by (simp add: max.assoc)
qed

lemma vi_sweep_Inr:
  assumes "for_each (vi_sweep_step mdp) xs (v, d) = Inr (v', d')"
  shows "vi_current_utilities v' = vi_current_utilities v
       \<and> vi_all_iteration_utilities v' = vi_all_iteration_utilities v
       \<and> (\<forall>s\<in>set xs. \<exists>u b c. bellman_equation mdp s (vi_current_utilities v) = Inr (u, b)
             \<and> vi_current_utilities v s = Some c
             \<and> vi_new_utilities v' s = Some u \<and> vi_optimal_policy v' s = Some b)
       \<and> (\<forall>s. s \<notin> set xs \<longrightarrow> vi_new_utilities v' s = vi_new_utilities v s
             \<and> vi_optimal_policy v' s = vi_optimal_policy v s)
       \<and> d' = Max (insert d ((\<lambda>s. \<bar>utility_of (vi_new_utilities v') s
                                    - utility_of (vi_current_utilities v) s\<bar>) ` set xs))"
  using assms
proof (induction xs arbitrary: v d)
  case Nil
  then show ?case by simp
next
  case (Cons x xs)
  from Cons.prems obtain v1 d1 where
    step: "vi_sweep_step mdp x (v, d) = Inr (v1, d1)"
    and rest: "for_each (vi_sweep_step mdp) xs (v1, d1) = Inr (v', d')"
    by (auto split: sum.splits)
  from vi_sweep_step_Inr [OF step] obtain u b c where
    bell: "bellman_equation mdp x (vi_current_utilities v) = Inr (u, b)"
    and c: "vi_current_utilities v x = Some c"
    and v1: "v1 = v\<lparr>vi_new_utilities := (vi_new_utilities v)(x \<mapsto> u),
                     vi_optimal_policy := (vi_optimal_policy v)(x \<mapsto> b)\<rparr>"
    and d1: "d1 = max d \<bar>u - c\<bar>"
    by blast
  note ih = Cons.IH [OF rest]
  have cur1: "vi_current_utilities v1 = vi_current_utilities v" by (simp add: v1)
  have newx: "vi_new_utilities v' x = Some u \<and> vi_optimal_policy v' x = Some b"
  proof (cases "x \<in> set xs")
    case True
    with ih bell show ?thesis by (auto simp: cur1)
  next
    case False
    from ih have "\<forall>s. s \<notin> set xs \<longrightarrow> vi_new_utilities v' s = vi_new_utilities v1 s
             \<and> vi_optimal_policy v' s = vi_optimal_policy v1 s" by blast
    with False have "vi_new_utilities v' x = vi_new_utilities v1 x
             \<and> vi_optimal_policy v' x = vi_optimal_policy v1 x" by blast
    then show ?thesis by (simp add: v1)
  qed
  have 1: "vi_current_utilities v' = vi_current_utilities v
       \<and> vi_all_iteration_utilities v' = vi_all_iteration_utilities v"
    using ih by (simp add: v1)
  have 2: "\<forall>s\<in>set (x # xs). \<exists>u b c. bellman_equation mdp s (vi_current_utilities v) = Inr (u, b)
             \<and> vi_current_utilities v s = Some c
             \<and> vi_new_utilities v' s = Some u \<and> vi_optimal_policy v' s = Some b"
    using ih bell c newx by (auto simp: cur1)
  have 3: "\<forall>s. s \<notin> set (x # xs) \<longrightarrow> vi_new_utilities v' s = vi_new_utilities v s
             \<and> vi_optimal_policy v' s = vi_optimal_policy v s"
    using ih by (simp add: v1)
  have "\<bar>u - c\<bar> = \<bar>utility_of (vi_new_utilities v') x - utility_of (vi_current_utilities v) x\<bar>"
    using newx c by (simp add: utility_of_def)
  then have 4: "d' = Max (insert d ((\<lambda>s. \<bar>utility_of (vi_new_utilities v') s
                                    - utility_of (vi_current_utilities v) s\<bar>) ` set (x # xs)))"
    using ih by (simp add: cur1 d1 Max_insert_max del: Max_insert)
  show ?case using 1 2 3 4 by blast
qed

lemma vi_body_Inr:
  assumes "vi_body mdp max_error v = Inr (v', delta, stop)"
  shows "vi_current_utilities v' = vi_current_utilities v ++ vi_new_utilities v"
    and "\<forall>s\<in>set (keys (states mdp)). \<exists>u b c.
           bellman_equation mdp s (vi_current_utilities v') = Inr (u, b)
         \<and> vi_current_utilities v' s = Some c
         \<and> vi_new_utilities v' s = Some u \<and> vi_optimal_policy v' s = Some b"
    and "delta = Max (insert 0 ((\<lambda>s. \<bar>utility_of (vi_new_utilities v') s
                                    - utility_of (vi_current_utilities v') s\<bar>)
                                  ` set (keys (states mdp))))"
    and "discount_factor mdp \<noteq> 0"
    and "stop \<longleftrightarrow> delta < max_error * (1 - discount_factor mdp) / discount_factor mdp"
proof -
  define v1 where "v1 = v\<lparr>vi_current_utilities := vi_current_utilities v ++ vi_new_utilities v\<rparr>"
  from assms obtain v2 where
    r: "for_each vi_record_step (keys (states mdp)) v1 = Inr v2"
    and s: "for_each (vi_sweep_step mdp) (keys (states mdp)) (v2, 0) = Inr (v', delta)"
    and g: "discount_factor mdp \<noteq> 0"
    and st: "stop \<longleftrightarrow> delta < max_error * (1 - discount_factor mdp) / discount_factor mdp"
    by (auto simp: vi_body_def Let_def v1_def split: sum.splits if_splits)
  have c2: "vi_current_utilities v2 = vi_current_utilities v ++ vi_new_utilities v"
    using vi_record_keeps [OF r] by (simp add: v1_def)
  note sw = vi_sweep_Inr [OF s]
  show c': "vi_current_utilities v' = vi_current_utilities v ++ vi_new_utilities v"
    using sw c2 by simp
  show "\<forall>s\<in>set (keys (states mdp)). \<exists>u b c.
           bellman_equation mdp s (vi_current_utilities v') = Inr (u, b)
         \<and> vi_current_utilities v' s = Some c
         \<and> vi_new_utilities v' s = Some u \<and> vi_optimal_policy v' s = Some b"
    using sw c2 c' by simp
  show "delta = Max (insert 0 ((\<lambda>s. \<bar>utility_of (vi_new_utilities v') s
                                    - utility_of (vi_current_utilities v') s\<bar>)
                                  ` set (keys (states mdp))))"
    using sw c2 c' by simp
  show "discount_factor mdp \<noteq> 0" by (rule g)
  show "stop \<longleftrightarrow> delta < max_error * (1 - discount_factor mdp) / discount_factor mdp"
    by (rule st)
qed

lemma vi_loop_Inr:
  assumes "vi_loop mdp max_error v = Some y"
  shows "\<forall>res. y = Inr res \<longrightarrow>
   (\<exists>v0 v' delta. vi_body mdp max_error v0 = Inr (v', delta, True)
      \<and> make_result mdp (vi_current_utilities v') (vi_optimal_policy v')
           (vi_all_iteration_utilities v') = Inr res)"
proof (rule vi_loop.raw_induct [OF _ assms])
  fix loop :: "maze \<Rightarrow> real \<Rightarrow> vi_locals \<Rightarrow> (error + result) option"
  fix mdp max_error v y
  let ?P = "\<lambda>mdp max_error y. \<forall>res. y = Inr res \<longrightarrow>
   (\<exists>v0 v' delta. vi_body mdp max_error v0 = Inr (v', delta, True)
      \<and> make_result mdp (vi_current_utilities v') (vi_optimal_policy v')
           (vi_all_iteration_utilities v') = Inr res)"
  assume ih: "\<And>mdp max_error v y. loop mdp max_error v = Some y \<Longrightarrow> ?P mdp max_error y"
    and eq: "(case vi_body mdp max_error v of Inl e \<Rightarrow> Some (Inl e)
      | Inr (v', max_utility_difference, stop) \<Rightarrow>
          if stop
          then Some (make_result mdp (vi_current_utilities v') (vi_optimal_policy v')
                       (vi_all_iteration_utilities v'))
          else loop mdp max_error v') = Some y"
  show "?P mdp max_error y"
  proof (cases "vi_body mdp max_error v")
    case (Inl e)
    with eq show ?thesis by auto
  next
    case (Inr r)
    obtain v' delta stop where r: "r = (v', delta, stop)" by (cases r) auto
    show ?thesis
    proof (cases stop)
      case True
      with eq Inr r show ?thesis by auto
    next
      case False
      with eq Inr r have "loop mdp max_error v' = Some y" by simp
      from ih [OF this] show ?thesis .
    qed
  qed
qed

subsection \<open>The solvers on the one-cell maze\<close>

lemma one_cell_expected_utility:
  "U (0, 0) = Some u \<Longrightarrow> get_expected_utility (one_cell_maze r gamma) (0, 0) a U = Inr u"
  by (cases a)
    (simp_all add: get_expected_utility_def one_cell_maze_def getitem_def keys_def
      expected_utility_step_def lookup_def transition_model_def)

lemma one_cell_reward: "reward_function (one_cell_maze r gamma) (0, 0) = Inr (Some r)"
  by (simp add: reward_function_def one_cell_maze_def py_index_def)

lemma one_cell_best_action:
  "U (0, 0) = Some u \<Longrightarrow>
   best_action_loop (one_cell_maze r gamma) (0, 0) U
     [(UP, x1), (DOWN, x2), (LEFT, x3), (RIGHT, x4)] = Inr (Some u, Some UP)"
  by (simp add: best_action_loop_def keys_def best_action_step_def one_cell_expected_utility)

lemma one_cell_fields:
  "discount_factor (one_cell_maze r gamma) = gamma"
  "start_state (one_cell_maze r gamma) = (0, 0)"
  "environment (one_cell_maze r gamma) = [[Some r]]"
  by (simp_all add: one_cell_maze_def)

lemma one_cell_getitem:
  "\<exists>x1 x2 x3 x4. getitem (states (one_cell_maze r gamma)) (0, 0)
      = Inr [(UP, x1), (DOWN, x2), (LEFT, x3), (RIGHT, x4)]"
  by (simp add: one_cell_maze_def getitem_def)

lemma one_cell_bellman:
  assumes "U (0, 0) = Some u"
  shows "bellman_equation (one_cell_maze r gamma) (0, 0) U = Inr (r + gamma * u, Some UP)"
proof -
  from one_cell_getitem [of r gamma] obtain x1 x2 x3 x4 where
    "getitem (states (one_cell_maze r gamma)) (0, 0)
      = Inr [(UP, x1), (DOWN, x2), (LEFT, x3), (RIGHT, x4)]" by blast
  then show ?thesis
    using assms
    by (simp add: bellman_equation_def one_cell_reward one_cell_best_action one_cell_fields)
qed

lemma one_cell_vi_body:
  assumes "gamma \<noteq> 0"
  shows "vi_body (one_cell_maze r gamma) max_error
           \<lparr>vi_current_utilities = c, vi_new_utilities = [(0, 0) \<mapsto> u],
            vi_all_iteration_utilities = [(0, 0) \<mapsto> h], vi_optimal_policy = [(0, 0) \<mapsto> p]\<rparr>
         = Inr (\<lparr>vi_current_utilities = c ++ [(0, 0) \<mapsto> u],
                 vi_new_utilities = [(0, 0) \<mapsto> r + gamma * u],
                 vi_all_iteration_utilities = [(0, 0) \<mapsto> h @ [u]],
                 vi_optimal_policy = [(0, 0) \<mapsto> Some UP]\<rparr>,
                \<bar>r + gamma * u - u\<bar>,
                \<bar>r + gamma * u - u\<bar> < max_error * (1 - gamma) / gamma)"
proof -
  have k: "keys (states (one_cell_maze r gamma)) = [(0, 0)]" by (rule keys_one_cell)
  have g: "discount_factor (one_cell_maze r gamma) = gamma" by (simp add: one_cell_fields)
  show ?thesis
    using assms
    by (simp add: vi_body_def k g Let_def vi_record_step_def lookup_def vi_sweep_step_def
        one_cell_bellman)
qed

lemma one_cell_vi_init:
  "vi_init (one_cell_maze r gamma)
   = \<lparr>vi_current_utilities = Map.empty, vi_new_utilities = [(0, 0) \<mapsto> 0],
      vi_all_iteration_utilities = [(0, 0) \<mapsto> []], vi_optimal_policy = [(0, 0) \<mapsto> None]\<rparr>"
  by (simp add: vi_init_def keys_one_cell)

lemma one_cell_value_iteration_stops_at_once:
  assumes "gamma \<noteq> 0" and "\<bar>r\<bar> < max_error * (1 - gamma) / gamma"
  shows "value_iteration (one_cell_maze r gamma) max_error
         = Some (Inr \<lparr>converged_utilities = [(0, 0) \<mapsto> 0],
                      optimal_policy = [(0, 0) \<mapsto> Some UP],
                      num_iterations = 1,
                      iteration_utilities = [(0, 0) \<mapsto> [0]]\<rparr>)"
  unfolding value_iteration_def one_cell_vi_init
  by (subst vi_loop.simps)
    (simp add: one_cell_vi_body [OF assms(1)] assms(2) make_result_def one_cell_fields)

subsection \<open>The Bellman backup\<close>

lemma sum_list_regroup:
  fixes f :: "'a \<Rightarrow> real"
  assumes "finite A" and "g ` set xs \<subseteq> A"
  shows "sum_list (map f xs) = (\<Sum>k\<in>A. sum_list (map f (filter (\<lambda>x. g x = k) xs)))"
  using assms(2)
proof (induction xs)
  case Nil
  then show ?case by simp
next
  case (Cons x xs)
  have "(\<Sum>k\<in>A. sum_list (map f (filter (\<lambda>y. g y = k) (x # xs))))
        = (\<Sum>k\<in>A. (if g x = k then f x else 0) + sum_list (map f (filter (\<lambda>y. g y = k) xs)))"
    by (rule sum.cong) simp_all
  also have "\<dots> = (\<Sum>k\<in>A. if g x = k then f x else 0)
                  + (\<Sum>k\<in>A. sum_list (map f (filter (\<lambda>y. g y = k) xs)))"
    by (rule sum.distrib)
  also have "(\<Sum>k\<in>A. if g x = k then f x else 0) = f x"
    using assms(1) Cons.prems by (simp add: sum.delta)
  finally show ?case using Cons by simp
qed

lemma map_of_keys_distinct:
  "distinct (map fst xs) \<Longrightarrow> map (\<lambda>k. F (map_of xs k)) (map fst xs) = map (\<lambda>(k, v). F (Some v)) xs"
proof (induction xs)
  case Nil
  then show ?case by simp
next
  case (Cons p ps)
  obtain k v where p: "p = (k, v)" by (cases p)
  have "map (\<lambda>k'. F (map_of (p # ps) k')) (map fst ps) = map (\<lambda>k'. F (map_of ps k')) (map fst ps)"
    using Cons.prems by (intro map_cong) (auto simp: p)
  then show ?case using Cons by (simp add: p)
qed

lemma expected_utility_regrouped:
  fixes U :: "state \<Rightarrow> real"
  shows "sum_list (map (\<lambda>entry. probability entry * U (next_state entry)) outs)
       = (\<Sum>s' \<in> next_state ` set outs.
            sum_list (map probability (filter (\<lambda>entry. next_state entry = s') outs)) * U s')"
proof -
  have "sum_list (map (\<lambda>entry. probability entry * U (next_state entry)) outs)
        = (\<Sum>s' \<in> next_state ` set outs.
             sum_list (map (\<lambda>entry. probability entry * U (next_state entry))
               (filter (\<lambda>entry. next_state entry = s') outs)))"
    by (rule sum_list_regroup) simp_all
  also have "\<dots> = (\<Sum>s' \<in> next_state ` set outs.
            sum_list (map probability (filter (\<lambda>entry. next_state entry = s') outs)) * U s')"
  proof (rule sum.cong)
    fix s' assume "s' \<in> next_state ` set outs"
    have "map (\<lambda>entry. probability entry * U (next_state entry))
               (filter (\<lambda>entry. next_state entry = s') outs)
          = map (\<lambda>entry. probability entry * U s') (filter (\<lambda>entry. next_state entry = s') outs)"
      by (rule map_cong) auto
    then show "sum_list (map (\<lambda>entry. probability entry * U (next_state entry))
               (filter (\<lambda>entry. next_state entry = s') outs))
          = sum_list (map probability (filter (\<lambda>entry. next_state entry = s') outs)) * U s'"
      by (simp only: sum_list_mult_const)
  qed simp
  finally show ?thesis .
qed

lemma get_expected_utility_spec:
  assumes "get_expected_utility mdp st a U = Inr v" and "dict_keys_unique mdp"
  shows "v = spec_expected_utility mdp (utility_of U) st a"
proof -
  from get_expected_utility_Inr [OF assms(1)] obtain action_map outcomes where
    g: "getitem (states mdp) st = Inr action_map" "getitem action_map a = Inr outcomes"
    and v: "v = sum_list (map (outcome_term U outcomes) (keys outcomes))"
    by blast
  have "(st, action_map) \<in> set (states mdp)" "(a, outcomes) \<in> set action_map"
    using g by (simp_all add: getitem_Inr_mem)
  with assms(2) have d: "distinct (map fst outcomes)"
    by (fastforce simp: dict_keys_unique_def keys_def)
  have so: "stored_outcomes mdp st a = map snd outcomes"
    using g by (simp add: stored_outcomes_def getitem_Inr)
  have "map (outcome_term U outcomes) (keys outcomes)
        = map (\<lambda>k. case map_of outcomes k of None \<Rightarrow> 0
                 | Some entry \<Rightarrow> probability entry * utility_of U (next_state entry))
            (map fst outcomes)"
    by (simp add: keys_def outcome_term_def utility_of_def split: option.splits)
  also have "\<dots> = map (\<lambda>(k, entry). probability entry * utility_of U (next_state entry)) outcomes"
    using map_of_keys_distinct [OF d, of "\<lambda>x. case x of None \<Rightarrow> 0
                 | Some entry \<Rightarrow> probability entry * utility_of U (next_state entry)"]
    by simp
  also have "\<dots> = map (\<lambda>entry. probability entry * utility_of U (next_state entry))
                     (map snd outcomes)"
    by (simp add: case_prod_unfold)
  finally have "v = sum_list (map (\<lambda>entry. probability entry * utility_of U (next_state entry))
                     (map snd outcomes))"
    using v by simp
  then show ?thesis
    unfolding spec_expected_utility_def next_state_probability_def so
    by (simp only: expected_utility_regrouped)
qed





subsection \<open>The result of value iteration\<close>

text \<open>
  Claim C7, at the input where the code leaves it. On the grid \<^verbatim>\<open>[[0.75]]\<close> with discount
  0.5 and \<^verbatim>\<open>max_error = 1\<close> the first residual 0.75 is below the threshold 1, so the loop
  returns after one sweep, and it returns \<open>U\<close>, the utilities from before that sweep:
  0 for the one state, at distance 1.5 from \<open>r / (1 - \<gamma>) = 1.5\<close>, more than the
  requested error 1.
\<close>

theorem one_cell_value_iteration_misses_bound:
  "Maze_init [[Some (3 / 4)]] (0, 0) (1 / 2) = Inr (one_cell_maze (3 / 4) (1 / 2))
   \<and> value_iteration (one_cell_maze (3 / 4) (1 / 2)) 1
     = Some (Inr \<lparr>converged_utilities = [(0, 0) \<mapsto> 0],
                  optimal_policy = [(0, 0) \<mapsto> Some UP],
                  num_iterations = 1,
                  iteration_utilities = [(0, 0) \<mapsto> [0]]\<rparr>)
   \<and> \<bar>0 - (3 / 4) / (1 - 1 / 2)\<bar> > (1 :: real)"
proof -
  have "value_iteration (one_cell_maze (3 / 4) (1 / 2)) 1
     = Some (Inr \<lparr>converged_utilities = [(0, 0) \<mapsto> 0],
                  optimal_policy = [(0, 0) \<mapsto> Some UP],
                  num_iterations = 1,
                  iteration_utilities = [(0, 0) \<mapsto> [0]]\<rparr>)"
    by (rule one_cell_value_iteration_stops_at_once) simp_all
  then show ?thesis by (simp add: Maze_init_one_cell)
qed

subsection \<open>Policy evaluation and policy improvement\<close>

lemma pi_init_fold:
  fixes v :: pi_locals
  defines "F \<equiv> (\<lambda>st v. v\<lparr>pi_current_utilities := (pi_current_utilities v)(st \<mapsto> 0),
                     pi_policy := (pi_policy v)(st \<mapsto> Some UP),
                     pi_all_iteration_utilities := (pi_all_iteration_utilities v)(st \<mapsto> [0])\<rparr>)"
  shows "pi_policy (fold F xs v) st = (if st \<in> set xs then Some (Some UP) else pi_policy v st)"
    and "pi_all_iteration_utilities (fold F xs v) st
           = (if st \<in> set xs then Some [0] else pi_all_iteration_utilities v st)"
    and "pi_current_utilities (fold F xs v) st
           = (if st \<in> set xs then Some 0 else pi_current_utilities v st)"
    and "pi_hasChanged (fold F xs v) = pi_hasChanged v"
    and "pi_num_iterations (fold F xs v) = pi_num_iterations v"
proof -
  have fx: "\<And>x v. pi_policy (F x v) = (pi_policy v)(x \<mapsto> Some UP)"
    "\<And>x v. pi_all_iteration_utilities (F x v) = (pi_all_iteration_utilities v)(x \<mapsto> [0])"
    "\<And>x v. pi_current_utilities (F x v) = (pi_current_utilities v)(x \<mapsto> 0)"
    "\<And>x v. pi_hasChanged (F x v) = pi_hasChanged v"
    "\<And>x v. pi_num_iterations (F x v) = pi_num_iterations v"
    by (simp_all add: F_def)
  show "pi_policy (fold F xs v) st = (if st \<in> set xs then Some (Some UP) else pi_policy v st)"
    by (induction xs arbitrary: v) (simp_all add: fx)
  show "pi_all_iteration_utilities (fold F xs v) st
           = (if st \<in> set xs then Some [0] else pi_all_iteration_utilities v st)"
    by (induction xs arbitrary: v) (simp_all add: fx)
  show "pi_current_utilities (fold F xs v) st
           = (if st \<in> set xs then Some 0 else pi_current_utilities v st)"
    by (induction xs arbitrary: v) (simp_all add: fx)
  show "pi_hasChanged (fold F xs v) = pi_hasChanged v"
    by (induction xs arbitrary: v) (simp_all add: fx)
  show "pi_num_iterations (fold F xs v) = pi_num_iterations v"
    by (induction xs arbitrary: v) (simp_all add: fx)
qed

lemma pi_init_fields:
  "\<forall>st\<in>set (keys (states mdp)). pi_policy (pi_init mdp) st = Some (Some UP)
      \<and> pi_all_iteration_utilities (pi_init mdp) st = Some [0]"
  "pi_num_iterations (pi_init mdp) = 0"
  "pi_hasChanged (pi_init mdp)"
  unfolding pi_init_def by (simp_all add: pi_init_fold)

lemma for_each_Cons_Inr:
  "for_each body (x # xs) s = Inr s' \<Longrightarrow> \<exists>t. body x s = Inr t \<and> for_each body xs t = Inr s'"
  by (auto split: sum.splits)

lemma pe_init_step_Inr:
  "pe_init_step U x (c, up, nh) = Inr acc1 \<Longrightarrow> \<exists>u. acc1 = (c(x \<mapsto> u), up, nh(x \<mapsto> []))"
  by (auto simp: pe_init_step_def split: sum.splits)

lemma pe_init_Inr:
  assumes "for_each (pe_init_step U) xs (c, up, nh) = Inr (c', up', nh')"
  shows "(\<forall>st\<in>set xs. nh' st = Some []) \<and> (\<forall>st. st \<notin> set xs \<longrightarrow> nh' st = nh st)"
  using assms
proof (induction xs arbitrary: c up nh)
  case Nil
  then show ?case by simp
next
  case (Cons x xs)
  from for_each_Cons_Inr [OF Cons.prems] pe_init_step_Inr obtain u where
    rest: "for_each (pe_init_step U) xs (c(x \<mapsto> u), up, nh(x \<mapsto> [])) = Inr (c', up', nh')"
    by blast
  note ih = Cons.IH [OF rest]
  have x: "nh' x = Some []"
  proof (cases "x \<in> set xs")
    case True
    with ih show ?thesis by blast
  next
    case False
    with ih have "nh' x = (nh(x \<mapsto> [])) x" by blast
    then show ?thesis by simp
  qed
  have "\<forall>st. st \<notin> set (x # xs) \<longrightarrow> nh' st = nh st"
  proof (intro allI impI)
    fix st assume "st \<notin> set (x # xs)"
    then have st: "st \<notin> set xs" "st \<noteq> x" by simp_all
    with ih have "nh' st = (nh(x \<mapsto> [])) st" by blast
    with st show "nh' st = nh st" by simp
  qed
  with x ih show ?case by simp
qed

lemma pe_update_keeps:
  assumes "for_each (pe_update_step mdp policy) xs (c, up, nh) = Inr (c', up', nh')"
  shows "nh' = nh"
proof -
  have "snd (snd (c', up', nh')) = nh"
  proof (rule for_each_invariant [OF assms, where P = "\<lambda>t. snd (snd t) = nh"])
    show "snd (snd (c, up, nh)) = nh" by simp
  next
    fix x t t'
    assume "snd (snd t) = nh" "pe_update_step mdp policy x t = Inr t'"
    then show "snd (snd t') = nh"
      by (auto simp: pe_update_step_def split: prod.splits sum.splits option.splits)
  qed
  then show ?thesis by simp
qed

lemma pe_copy_step_Inr:
  "pe_copy_step x (c, up, nh) = Inr acc1 \<Longrightarrow>
   \<exists>u h. nh x = Some h \<and> acc1 = (c(x \<mapsto> u), up, nh(x \<mapsto> h @ [u]))"
  by (auto simp: pe_copy_step_def lookup_Inr split: sum.splits)

lemma pe_copy_Inr:
  assumes "for_each pe_copy_step xs (c, up, nh) = Inr (c', up', nh')" and "distinct xs"
  shows "(\<forall>st\<in>set xs. \<exists>h u. nh st = Some h \<and> nh' st = Some (h @ [u]))
       \<and> (\<forall>st. st \<notin> set xs \<longrightarrow> nh' st = nh st)"
  using assms
proof (induction xs arbitrary: c up nh)
  case Nil
  then show ?case by simp
next
  case (Cons x xs)
  from for_each_Cons_Inr [OF Cons.prems(1)] pe_copy_step_Inr obtain u h where
    h: "nh x = Some h"
    and rest: "for_each pe_copy_step xs (c(x \<mapsto> u), up, nh(x \<mapsto> h @ [u])) = Inr (c', up', nh')"
    by blast
  from Cons.prems(2) have d: "x \<notin> set xs" "distinct xs" by simp_all
  note ih = Cons.IH [OF rest d(2)]
  from ih d(1) have "nh' x = (nh(x \<mapsto> h @ [u])) x" by blast
  then have x: "nh' x = Some (h @ [u])" by simp
  have 1: "\<forall>st\<in>set (x # xs). \<exists>h u. nh st = Some h \<and> nh' st = Some (h @ [u])"
  proof
    fix st assume st: "st \<in> set (x # xs)"
    show "\<exists>h u. nh st = Some h \<and> nh' st = Some (h @ [u])"
    proof (cases "st = x")
      case True
      with h x show ?thesis by blast
    next
      case False
      with st have "st \<in> set xs" by simp
      with ih obtain h' u' where "(nh(x \<mapsto> h @ [u])) st = Some h'" "nh' st = Some (h' @ [u'])"
        by blast
      with False show ?thesis by simp
    qed
  qed
  have 2: "\<forall>st. st \<notin> set (x # xs) \<longrightarrow> nh' st = nh st"
  proof (intro allI impI)
    fix st assume "st \<notin> set (x # xs)"
    then have st: "st \<notin> set xs" "st \<noteq> x" by simp_all
    with ih have "nh' st = (nh(x \<mapsto> h @ [u])) st" by blast
    with st show "nh' st = nh st" by simp
  qed
  show ?case using 1 2 by blast
qed

lemma pe_round_Inr:
  assumes "pe_round mdp policy (c, up, nh) = Inr (c', up', nh')"
    and "distinct (keys (states mdp))"
    and "\<forall>st\<in>set (keys (states mdp)). \<exists>h. nh st = Some h \<and> length h = n"
  shows "\<forall>st\<in>set (keys (states mdp)). \<exists>h. nh' st = Some h \<and> length h = Suc n"
proof -
  from assms(1) obtain c1 up1 nh1 where
    u: "for_each (pe_update_step mdp policy) (keys (states mdp)) (c, up, nh) = Inr (c1, up1, nh1)"
    and cp: "for_each pe_copy_step (keys (states mdp)) (c1, up1, nh1) = Inr (c', up', nh')"
    by (auto simp: pe_round_def split: sum.splits)
  have "nh1 = nh" by (rule pe_update_keeps [OF u])
  with pe_copy_Inr [OF cp assms(2)] assms(3) show ?thesis by fastforce
qed

lemma pe_rounds_Inr:
  assumes "pe_rounds k mdp policy (c, up, nh) = Inr (c', up', nh')"
    and "distinct (keys (states mdp))"
    and "\<forall>st\<in>set (keys (states mdp)). \<exists>h. nh st = Some h \<and> length h = n"
  shows "\<forall>st\<in>set (keys (states mdp)). \<exists>h. nh' st = Some h \<and> length h = n + k"
  using assms(1,3)
proof (induction k arbitrary: c up nh n)
  case 0
  then show ?case by simp
next
  case (Suc k)
  from Suc.prems(1) obtain c1 up1 nh1 where
    r: "pe_round mdp policy (c, up, nh) = Inr (c1, up1, nh1)"
    and rest: "pe_rounds k mdp policy (c1, up1, nh1) = Inr (c', up', nh')"
    by (auto split: sum.splits)
  from Suc.IH [OF rest pe_round_Inr [OF r assms(2) Suc.prems(2)]] show ?case by simp
qed

lemma policy_evaluation_Inr:
  assumes "policy_evaluation mdp policy U k = Inr (c', nh')"
    and "distinct (keys (states mdp))"
  shows "\<forall>st\<in>set (keys (states mdp)). \<exists>h. nh' st = Some h \<and> length h = nat k"
proof -
  from assms(1) obtain c up nh up' where
    i: "for_each (pe_init_step U) (keys (states mdp)) (Map.empty, Map.empty, Map.empty)
          = Inr (c, up, nh)"
    and r: "pe_rounds (nat k) mdp policy (c, up, nh) = Inr (c', up', nh')"
    by (auto simp: policy_evaluation_def split: sum.splits prod.splits)
  have "\<forall>st\<in>set (keys (states mdp)). \<exists>h. nh st = Some h \<and> length h = 0"
    using pe_init_Inr [OF i] by simp
  from pe_rounds_Inr [OF r assms(2) this] show ?thesis by simp
qed

lemma pi_extend_step_Inr:
  "pi_extend_step nh x hist = Inr hist1 \<Longrightarrow>
   \<exists>h e. hist x = Some h \<and> nh x = Some e \<and> hist1 = hist(x \<mapsto> h @ e)"
  by (auto simp: pi_extend_step_def lookup_Inr split: sum.splits)

lemma pi_extend_Inr:
  assumes "for_each (pi_extend_step nh) xs hist = Inr hist'" and "distinct xs"
  shows "(\<forall>st\<in>set xs. \<exists>h e. hist st = Some h \<and> nh st = Some e \<and> hist' st = Some (h @ e))
       \<and> (\<forall>st. st \<notin> set xs \<longrightarrow> hist' st = hist st)"
  using assms
proof (induction xs arbitrary: hist)
  case Nil
  then show ?case by simp
next
  case (Cons x xs)
  from for_each_Cons_Inr [OF Cons.prems(1)] pi_extend_step_Inr obtain h e where
    h: "hist x = Some h" "nh x = Some e"
    and rest: "for_each (pi_extend_step nh) xs (hist(x \<mapsto> h @ e)) = Inr hist'"
    by blast
  from Cons.prems(2) have d: "x \<notin> set xs" "distinct xs" by simp_all
  note ih = Cons.IH [OF rest d(2)]
  from ih d(1) have "hist' x = (hist(x \<mapsto> h @ e)) x" by blast
  then have x: "hist' x = Some (h @ e)" by simp
  have 1: "\<forall>st\<in>set (x # xs). \<exists>h e. hist st = Some h \<and> nh st = Some e \<and> hist' st = Some (h @ e)"
  proof
    fix st assume st: "st \<in> set (x # xs)"
    show "\<exists>h e. hist st = Some h \<and> nh st = Some e \<and> hist' st = Some (h @ e)"
    proof (cases "st = x")
      case True
      with h x show ?thesis by blast
    next
      case False
      with st have "st \<in> set xs" by simp
      with ih obtain h' e' where "(hist(x \<mapsto> h @ e)) st = Some h'" "nh st = Some e'"
        "hist' st = Some (h' @ e')"
        by blast
      with False show ?thesis by simp
    qed
  qed
  have 2: "\<forall>st. st \<notin> set (x # xs) \<longrightarrow> hist' st = hist st"
  proof (intro allI impI)
    fix st assume "st \<notin> set (x # xs)"
    then have st: "st \<notin> set xs" "st \<noteq> x" by simp_all
    with ih have "hist' st = (hist(x \<mapsto> h @ e)) st" by blast
    with st show "hist' st = hist st" by simp
  qed
  show ?case using 1 2 by blast
qed

lemma policy_expected_utility_Inr:
  "policy_expected_utility mdp st policy U = Inr x \<Longrightarrow>
   \<exists>a. policy st = Some (Some a) \<and> get_expected_utility mdp st a U = Inr x"
  by (auto simp: policy_expected_utility_def lookup_Inr split: sum.splits option.splits)

lemma policy_improvement_step_Inr:
  assumes "policy_improvement_step mdp policy U st (imp, ch) = Inr (imp', ch')"
  shows "\<exists>a. imp' = imp(st \<mapsto> Some a)"
proof -
  from assms obtain action_map mx b x where
    l: "best_action_loop mdp st U action_map = Inr (mx, b)"
    and p: "policy_expected_utility mdp st policy U = Inr x"
    and c: "(mx \<noteq> None \<and> imp' = imp(st \<mapsto> b)) \<or> (\<exists>a. lookup policy st = Inr a \<and> imp' = imp(st \<mapsto> a))"
    by (auto simp: policy_improvement_step_def split: sum.splits option.splits if_splits)
  from policy_expected_utility_Inr [OF p] obtain a where a: "policy st = Some (Some a)" by blast
  from c show ?thesis
  proof
    assume "mx \<noteq> None \<and> imp' = imp(st \<mapsto> b)"
    with best_action_loop_None [OF l] show ?thesis by auto
  next
    assume "\<exists>a. lookup policy st = Inr a \<and> imp' = imp(st \<mapsto> a)"
    with a show ?thesis by (auto simp: lookup_Inr)
  qed
qed

lemma policy_improvement_for_each:
  assumes "for_each (policy_improvement_step mdp policy U) xs acc = Inr acc'"
  shows "(\<forall>st\<in>set xs. \<exists>a. fst acc' st = Some (Some a))
       \<and> (\<forall>st. (\<exists>a. fst acc st = Some (Some a)) \<longrightarrow> (\<exists>a. fst acc' st = Some (Some a)))"
  using assms
proof (induction xs arbitrary: acc)
  case Nil
  then show ?case by simp
next
  case (Cons x xs)
  from Cons.prems obtain acc1 where
    step: "policy_improvement_step mdp policy U x acc = Inr acc1"
    and rest: "for_each (policy_improvement_step mdp policy U) xs acc1 = Inr acc'"
    by (auto split: sum.splits)
  from policy_improvement_step_Inr [of mdp policy U x "fst acc" "snd acc" "fst acc1" "snd acc1"] step
  obtain a where a: "fst acc1 = (fst acc)(x \<mapsto> Some a)" by auto
  note ih = Cons.IH [OF rest]
  from ih have keep: "\<forall>st. (\<exists>a. fst acc1 st = Some (Some a)) \<longrightarrow> (\<exists>a. fst acc' st = Some (Some a))"
    by blast
  have "fst acc1 x = Some (Some a)" by (simp add: a)
  with keep have x: "\<exists>a. fst acc' x = Some (Some a)" by blast
  have 2: "\<forall>st. (\<exists>a. fst acc st = Some (Some a)) \<longrightarrow> (\<exists>a. fst acc' st = Some (Some a))"
  proof (intro allI impI)
    fix st assume "\<exists>a. fst acc st = Some (Some a)"
    then have "\<exists>b. fst acc1 st = Some (Some b)" by (cases "st = x") (simp_all add: a)
    with keep show "\<exists>a. fst acc' st = Some (Some a)" by blast
  qed
  have "\<forall>st\<in>set (x # xs). \<exists>a. fst acc' st = Some (Some a)" using x ih by auto
  with 2 show ?case by blast
qed

lemma policy_improvement_Inr:
  assumes "policy_improvement mdp policy U = Inr (policy', changed)"
  shows "\<forall>st\<in>set (keys (states mdp)). \<exists>a. policy' st = Some (Some a)"
  using policy_improvement_for_each [OF assms [unfolded policy_improvement_def]] by simp

subsection \<open>The loop of policy iteration\<close>

lemma pi_init_invariants: "policy_total mdp (pi_init mdp)" "history_counted mdp (pi_init mdp)"
  using pi_init_fields [of mdp] by (simp_all add: policy_total_def history_counted_def)

lemma pi_body_Inr:
  assumes "pi_body mdp k v = Inr v'"
  shows "policy_total mdp v'"
    and "distinct (keys (states mdp)) \<Longrightarrow> 0 \<le> k \<Longrightarrow> history_counted mdp v
         \<Longrightarrow> history_counted mdp v'"
proof -
  from assms obtain c nh pol ch hist where
    e: "policy_evaluation mdp (pi_policy v) (pi_current_utilities v) k = Inr (c, nh)"
    and i: "policy_improvement mdp (pi_policy v) c = Inr (pol, ch)"
    and x: "for_each (pi_extend_step nh) (keys (states mdp)) (pi_all_iteration_utilities v)
              = Inr hist"
    and v': "v' = \<lparr>pi_current_utilities = c, pi_policy = pol,
                   pi_all_iteration_utilities = hist, pi_hasChanged = ch,
                   pi_num_iterations = pi_num_iterations v + k\<rparr>"
    by (auto simp: pi_body_def split: sum.splits prod.splits)
  show "policy_total mdp v'"
    using policy_improvement_Inr [OF i] by (simp add: policy_total_def v')
  assume d: "distinct (keys (states mdp))" and k: "0 \<le> k" and h: "history_counted mdp v"
  show "history_counted mdp v'"
    unfolding history_counted_def
  proof
    fix st assume st: "st \<in> set (keys (states mdp))"
    from pi_extend_Inr [OF x d] st obtain h0 e0 where
      h0: "pi_all_iteration_utilities v st = Some h0" "nh st = Some e0"
        "hist st = Some (h0 @ e0)" by blast
    from policy_evaluation_Inr [OF e d] st h0(2) have "length e0 = nat k" by auto
    moreover from h st h0(1) have "int (length h0) = 1 + pi_num_iterations v"
      by (auto simp: history_counted_def)
    ultimately show "\<exists>h. pi_all_iteration_utilities v' st = Some h
        \<and> int (length h) = 1 + pi_num_iterations v'"
      using h0(3) k by (simp add: v')
  qed
qed

lemma pi_loop_Inr:
  assumes "pi_loop mdp k v = Some y"
  shows "\<forall>v'. y = Inr v' \<longrightarrow>
           (policy_total mdp v \<longrightarrow> policy_total mdp v')
         \<and> (distinct (keys (states mdp)) \<and> 0 \<le> k \<and> history_counted mdp v
              \<longrightarrow> history_counted mdp v')"
proof (rule pi_loop.raw_induct [OF _ assms])
  fix loop :: "maze \<Rightarrow> int \<Rightarrow> pi_locals \<Rightarrow> (error + pi_locals) option"
  fix mdp k v y
  let ?P = "\<lambda>mdp k v y. \<forall>v'. y = Inr v' \<longrightarrow>
           (policy_total mdp v \<longrightarrow> policy_total mdp v')
         \<and> (distinct (keys (states mdp)) \<and> 0 \<le> k \<and> history_counted mdp v
              \<longrightarrow> history_counted mdp v')"
  assume ih: "\<And>mdp k v y. loop mdp k v = Some y \<Longrightarrow> ?P mdp k v y"
    and eq: "(if pi_hasChanged v
      then (case pi_body mdp k v of Inl e \<Rightarrow> Some (Inl e) | Inr v' \<Rightarrow> loop mdp k v')
      else Some (Inr v)) = Some y"
  show "?P mdp k v y"
  proof (cases "pi_hasChanged v")
    case False
    with eq show ?thesis by auto
  next
    case True
    show ?thesis
    proof (cases "pi_body mdp k v")
      case (Inl e)
      with eq True show ?thesis by auto
    next
      case (Inr v1)
      with eq True have "loop mdp k v1 = Some y" by simp
      from ih [OF this] pi_body_Inr [OF Inr] show ?thesis by blast
    qed
  qed
qed

lemma policy_iteration_Inr:
  assumes "policy_iteration mdp k = Some (Inr res)"
  shows "\<exists>v. pi_loop mdp k (pi_init mdp) = Some (Inr v)
           \<and> optimal_policy res = pi_policy v
           \<and> iteration_utilities res = pi_all_iteration_utilities v
           \<and> converged_utilities res = pi_current_utilities v
           \<and> pi_all_iteration_utilities v (start_state mdp) \<noteq> None
           \<and> num_iterations res = length (the (pi_all_iteration_utilities v (start_state mdp)))"
  using assms
  by (auto simp: policy_iteration_def make_result_def split: option.splits sum.splits)

subsection \<open>Policy iteration on the one-cell maze\<close>

lemma one_cell_policy_expected_utility:
  "policy (0, 0) = Some (Some a) \<Longrightarrow> U (0, 0) = Some u \<Longrightarrow>
   policy_expected_utility (one_cell_maze r gamma) (0, 0) policy U = Inr u"
  by (simp add: policy_expected_utility_def lookup_def one_cell_expected_utility)

lemma one_cell_policy_evaluation:
  "policy_evaluation (one_cell_maze r gamma) [(0, 0) \<mapsto> Some a] [(0, 0) \<mapsto> u] 1
   = Inr ([(0, 0) \<mapsto> r + gamma * u], [(0, 0) \<mapsto> [r + gamma * u]])"
  by (simp add: policy_evaluation_def keys_one_cell pe_init_step_def lookup_def pe_round_def
      pe_update_step_def pe_copy_step_def one_cell_reward one_cell_policy_expected_utility
      one_cell_fields)

lemma one_cell_policy_improvement:
  "policy_improvement (one_cell_maze r gamma) [(0, 0) \<mapsto> Some a] [(0, 0) \<mapsto> u]
   = Inr ([(0, 0) \<mapsto> Some a], False)"
proof -
  from one_cell_getitem [of r gamma] obtain x1 x2 x3 x4 where
    "getitem (states (one_cell_maze r gamma)) (0, 0)
      = Inr [(UP, x1), (DOWN, x2), (LEFT, x3), (RIGHT, x4)]" by blast
  then show ?thesis
    by (simp add: policy_improvement_def keys_one_cell policy_improvement_step_def
        one_cell_best_action one_cell_policy_expected_utility lookup_def)
qed

lemma one_cell_pi_init:
  "pi_init (one_cell_maze r gamma)
   = \<lparr>pi_current_utilities = [(0, 0) \<mapsto> 0], pi_policy = [(0, 0) \<mapsto> Some UP],
      pi_all_iteration_utilities = [(0, 0) \<mapsto> [0]], pi_hasChanged = True,
      pi_num_iterations = 0\<rparr>"
  by (simp add: pi_init_def keys_one_cell)

lemma one_cell_pi_loop:
  "pi_loop (one_cell_maze r gamma) 1 (pi_init (one_cell_maze r gamma))
   = Some (Inr \<lparr>pi_current_utilities = [(0, 0) \<mapsto> r], pi_policy = [(0, 0) \<mapsto> Some UP],
                pi_all_iteration_utilities = [(0, 0) \<mapsto> [0, r]], pi_hasChanged = False,
                pi_num_iterations = 1\<rparr>)"
  unfolding one_cell_pi_init
  apply (subst pi_loop.simps)
  apply (simp add: pi_body_def one_cell_policy_evaluation one_cell_policy_improvement
      keys_one_cell pi_extend_step_def lookup_def)
  apply (subst pi_loop.simps)
  apply simp
  done

lemma one_cell_policy_iteration:
  "policy_iteration (one_cell_maze r gamma) 1
   = Some (Inr \<lparr>converged_utilities = [(0, 0) \<mapsto> r],
                optimal_policy = [(0, 0) \<mapsto> Some UP],
                num_iterations = 2,
                iteration_utilities = [(0, 0) \<mapsto> [0, r]]\<rparr>)"
  by (simp add: policy_iteration_def one_cell_pi_loop make_result_def one_cell_fields)

text \<open>
  Claim C4, as the code has it. When \<^verbatim>\<open>policy_iteration\<close> returns, with an evaluation
  count of at least 1, every state's list in the returned history is one entry longer
  than the number of evaluation rounds that the local counter has accumulated (the
  count is added once per turn of the outer loop): the lists start with the zeroth
  utility. The state dictionary, as every dictionary, has no key twice.
\<close>

theorem policy_iteration_history_length:
  assumes "policy_iteration mdp k = Some (Inr res)"
    and "1 \<le> k"
    and "distinct (keys (states mdp))"
  shows "\<exists>v. pi_loop mdp k (pi_init mdp) = Some (Inr v)
           \<and> iteration_utilities res = pi_all_iteration_utilities v
           \<and> (\<forall>st \<in> set (keys (states mdp)). \<exists>h.
                 iteration_utilities res st = Some h
               \<and> int (length h) = 1 + pi_num_iterations v)"
proof -
  from policy_iteration_Inr [OF assms(1)] obtain v where
    v: "pi_loop mdp k (pi_init mdp) = Some (Inr v)"
    and r: "iteration_utilities res = pi_all_iteration_utilities v"
    by blast
  from pi_loop_Inr [OF v] pi_init_invariants(2) [of mdp] assms(2,3)
  have "history_counted mdp v" by simp
  then show ?thesis using v r by (auto simp: history_counted_def)
qed

theorem policy_iteration_history_length_witness:
  "policy_iteration (one_cell_maze (3 / 4) (1 / 2)) 1
     = Some (Inr \<lparr>converged_utilities = [(0, 0) \<mapsto> 3 / 4],
                  optimal_policy = [(0, 0) \<mapsto> Some UP],
                  num_iterations = 2,
                  iteration_utilities = [(0, 0) \<mapsto> [0, 3 / 4]]\<rparr>)
   \<and> (1 :: int) \<le> 1
   \<and> distinct (keys (states (one_cell_maze (3 / 4) (1 / 2))))
   \<and> (\<exists>v. pi_loop (one_cell_maze (3 / 4) (1 / 2)) 1 (pi_init (one_cell_maze (3 / 4) (1 / 2)))
             = Some (Inr v)
           \<and> int (length [0, 3 / 4 :: real]) = 1 + pi_num_iterations v)"
proof -
  have h1: "policy_iteration (one_cell_maze (3 / 4) (1 / 2)) 1
     = Some (Inr \<lparr>converged_utilities = [(0, 0) \<mapsto> 3 / 4],
                  optimal_policy = [(0, 0) \<mapsto> Some UP],
                  num_iterations = 2,
                  iteration_utilities = [(0, 0) \<mapsto> [0, 3 / 4]]\<rparr>)"
    by (rule one_cell_policy_iteration)
  have h2: "(1 :: int) \<le> 1" by simp
  have h3: "distinct (keys (states (one_cell_maze (3 / 4) (1 / 2))))"
    by (simp add: keys_one_cell)
  show ?thesis
    using h1 h2 h3 policy_iteration_history_length [OF h1 h2 h3] by (auto simp: keys_one_cell)
qed

text \<open>
  The claim as written fails on the one-cell maze with one evaluation per turn: the
  loop makes one turn, so one evaluation round is performed and counted, while the
  returned \<^verbatim>\<open>num_iterations\<close> and the length of the history list are both 2.
\<close>

theorem policy_iteration_count_counterexample:
  "policy_iteration (one_cell_maze (3 / 4) (1 / 2)) 1
     = Some (Inr \<lparr>converged_utilities = [(0, 0) \<mapsto> 3 / 4],
                  optimal_policy = [(0, 0) \<mapsto> Some UP],
                  num_iterations = 2,
                  iteration_utilities = [(0, 0) \<mapsto> [0, 3 / 4]]\<rparr>)
   \<and> pi_loop (one_cell_maze (3 / 4) (1 / 2)) 1 (pi_init (one_cell_maze (3 / 4) (1 / 2)))
     = Some (Inr \<lparr>pi_current_utilities = [(0, 0) \<mapsto> 3 / 4],
                  pi_policy = [(0, 0) \<mapsto> Some UP],
                  pi_all_iteration_utilities = [(0, 0) \<mapsto> [0, 3 / 4]],
                  pi_hasChanged = False,
                  pi_num_iterations = 1\<rparr>)
   \<and> (2 :: nat) \<noteq> 1
   \<and> length [0, 3 / 4 :: real] \<noteq> 1"
  by (simp add: one_cell_policy_iteration one_cell_pi_loop)

subsection \<open>Runs that raise nothing\<close>

lemma is_wall_False_reward:
  assumes "is_wall (environment mdp) st = Inr False"
  shows "\<exists>r. reward_function mdp st = Inr (Some r)"
  using assms
  by (auto simp: is_wall_def reward_function_def split: if_splits sum.splits)

lemma Maze_init_well_formed:
  assumes "Maze_init env start gamma = Inr mdp"
  shows "well_formed mdp"
  unfolding well_formed_def
proof (intro ballI, clarify)
  fix st action_map
  assume m: "(st, action_map) \<in> set (states mdp)"
  then have k: "st \<in> set (keys (states mdp))" by (force simp: keys_def)
  from m have am: "action_map = spec_action_map env st"
    by (auto simp: Maze_init_Inr(5) [OF assms])
  from k have "is_wall env st = Inr False" by (simp add: Maze_init_key_iff [OF assms])
  then have 1: "\<exists>r. reward_function mdp st = Inr (Some r)"
    using is_wall_False_reward [of mdp st] by (simp add: Maze_init_Inr(1) [OF assms])
  have 2: "action_map \<noteq> []" by (simp add: am spec_action_map_def)
  have 3: "\<forall>(a, outcomes) \<in> set action_map. \<forall>(actual, entry) \<in> set outcomes.
            next_state entry \<in> set (keys (states mdp))"
  proof (clarify)
    fix a outcomes actual entry
    assume "(a, outcomes) \<in> set action_map" "(actual, entry) \<in> set outcomes"
    then have "(actual, entry) \<in> set (spec_outcomes env st a)"
      by (auto simp: am spec_action_map_def)
    from spec_outcomes_entries [OF this] Maze_init_landing [OF assms k]
    show "next_state entry \<in> set (keys (states mdp))" by auto
  qed
  show "(\<exists>r. reward_function mdp st = Inr (Some r)) \<and> action_map \<noteq> [] \<and>
       (\<forall>(a, outcomes) \<in> set action_map. \<forall>(actual, entry) \<in> set outcomes.
            next_state entry \<in> set (keys (states mdp)))"
    using 1 2 3 by blast
qed

lemma well_formedD:
  assumes "well_formed mdp" and "getitem (states mdp) st = Inr action_map"
  shows "\<exists>r. reward_function mdp st = Inr (Some r)" and "action_map \<noteq> []"
    and "getitem action_map a = Inr outcomes \<Longrightarrow> (actual, entry) \<in> set outcomes
         \<Longrightarrow> next_state entry \<in> set (keys (states mdp))"
proof -
  from assms(2) have m: "(st, action_map) \<in> set (states mdp)" by (rule getitem_Inr_mem)
  with assms(1) show "\<exists>r. reward_function mdp st = Inr (Some r)" "action_map \<noteq> []"
    by (auto simp: well_formed_def)
  assume "getitem action_map a = Inr outcomes" "(actual, entry) \<in> set outcomes"
  with getitem_Inr_mem [of action_map a outcomes] m assms(1)
  show "next_state entry \<in> set (keys (states mdp))"
    unfolding well_formed_def by fast
qed

lemma get_expected_utility_total:
  assumes "well_formed mdp" and "getitem (states mdp) st = Inr action_map"
    and "a \<in> set (keys action_map)" and "set (keys (states mdp)) \<subseteq> dom U"
  shows "\<exists>x. get_expected_utility mdp st a U = Inr x"
proof -
  from getitem_key [OF assms(3)] obtain outcomes where
    o: "getitem action_map a = Inr outcomes" by blast
  have "\<exists>x. for_each (expected_utility_step mdp st a U outcomes) (keys outcomes) 0 = Inr x \<and> True"
  proof (rule for_each_total)
    fix k t assume "k \<in> set (keys outcomes)"
    from getitem_key [OF this] obtain entry where
      e: "getitem outcomes k = Inr entry" "(k, entry) \<in> set outcomes" by blast
    from well_formedD(3) [OF assms(1,2) o e(2)] assms(4)
    obtain u where u: "U (next_state entry) = Some u" by blast
    have "transition_model mdp st a k = Inr (probability entry)"
      using e(1) by (simp add: transition_model_def assms(2) o getitem_Inr)
    then show "\<exists>t'. expected_utility_step mdp st a U outcomes k t = Inr t' \<and> True"
      by (simp add: expected_utility_step_def e(1) lookup_def u)
  qed simp
  then show ?thesis by (simp add: get_expected_utility_def assms(2) o)
qed

lemma best_action_loop_total:
  assumes "well_formed mdp" and "getitem (states mdp) st = Inr action_map"
    and "set (keys (states mdp)) \<subseteq> dom U"
  shows "\<exists>acc. best_action_loop mdp st U action_map = Inr acc"
proof -
  have "\<exists>acc. for_each (best_action_step mdp st U) (keys action_map) (None, None) = Inr acc \<and> True"
  proof (rule for_each_total)
    fix a t assume "a \<in> set (keys action_map)"
    from get_expected_utility_total [OF assms(1,2) this assms(3)]
    show "\<exists>t'. best_action_step mdp st U a t = Inr t' \<and> True"
      by (auto simp: best_action_step_def)
  qed simp
  then show ?thesis by (simp add: best_action_loop_def)
qed

lemma bellman_equation_total:
  assumes "well_formed mdp" and "st \<in> set (keys (states mdp))"
    and "set (keys (states mdp)) \<subseteq> dom U"
  shows "\<exists>u b. bellman_equation mdp st U = Inr (u, b)"
proof -
  from getitem_key [OF assms(2)] obtain action_map where
    g: "getitem (states mdp) st = Inr action_map" by blast
  from well_formedD(1,2) [OF assms(1) g] obtain r where
    r: "reward_function mdp st = Inr (Some r)" and ne: "action_map \<noteq> []" by blast
  from best_action_loop_total [OF assms(1) g assms(3)] obtain mx b where
    l: "best_action_loop mdp st U action_map = Inr (mx, b)" by force
  from best_action_loop_Inr [OF l ne] obtain x where "mx = Some x" by blast
  then show ?thesis by (simp add: bellman_equation_def g r l)
qed

lemma vi_record_total:
  assumes "set xs \<subseteq> dom (vi_all_iteration_utilities v)" and "set xs \<subseteq> dom (vi_current_utilities v)"
  shows "\<exists>v'. for_each vi_record_step xs v = Inr v'
           \<and> (set xs \<subseteq> dom (vi_all_iteration_utilities v')
              \<and> set xs \<subseteq> dom (vi_current_utilities v')
              \<and> dom (vi_all_iteration_utilities v) \<subseteq> dom (vi_all_iteration_utilities v'))"
proof (rule for_each_total [where P = "\<lambda>t. set xs \<subseteq> dom (vi_all_iteration_utilities t)
              \<and> set xs \<subseteq> dom (vi_current_utilities t)
              \<and> dom (vi_all_iteration_utilities v) \<subseteq> dom (vi_all_iteration_utilities t)"])
  show "set xs \<subseteq> dom (vi_all_iteration_utilities v)
              \<and> set xs \<subseteq> dom (vi_current_utilities v)
              \<and> dom (vi_all_iteration_utilities v) \<subseteq> dom (vi_all_iteration_utilities v)"
    using assms by simp
next
  fix x and t :: vi_locals
  assume x: "x \<in> set xs" and t: "set xs \<subseteq> dom (vi_all_iteration_utilities t)
              \<and> set xs \<subseteq> dom (vi_current_utilities t)
              \<and> dom (vi_all_iteration_utilities v) \<subseteq> dom (vi_all_iteration_utilities t)"
  then obtain h u where "vi_all_iteration_utilities t x = Some h" "vi_current_utilities t x = Some u"
    by blast
  then have "vi_record_step x t
      = Inr (t\<lparr>vi_all_iteration_utilities := (vi_all_iteration_utilities t)(x \<mapsto> h @ [u])\<rparr>)"
    by (simp add: vi_record_step_def lookup_def)
  with t show "\<exists>t'. vi_record_step x t = Inr t'
      \<and> (set xs \<subseteq> dom (vi_all_iteration_utilities t')
              \<and> set xs \<subseteq> dom (vi_current_utilities t')
              \<and> dom (vi_all_iteration_utilities v) \<subseteq> dom (vi_all_iteration_utilities t'))"
    by auto
qed

lemma vi_sweep_total:
  assumes "well_formed mdp" and "set (keys (states mdp)) \<subseteq> dom (vi_current_utilities v)"
    and "set xs \<subseteq> set (keys (states mdp))"
  shows "\<exists>acc. for_each (vi_sweep_step mdp) xs (v, d) = Inr acc"
proof -
  have "\<exists>acc. for_each (vi_sweep_step mdp) xs (v, d) = Inr acc
          \<and> vi_current_utilities (fst acc) = vi_current_utilities v"
  proof (rule for_each_total [where P = "\<lambda>t. vi_current_utilities (fst t) = vi_current_utilities v"])
    show "vi_current_utilities (fst (v, d)) = vi_current_utilities v" by simp
  next
    fix x and t :: "vi_locals \<times> real"
    assume x: "x \<in> set xs" and t: "vi_current_utilities (fst t) = vi_current_utilities v"
    with assms(3) have k: "x \<in> set (keys (states mdp))" by blast
    from bellman_equation_total [OF assms(1) k assms(2)] obtain u b where
      b: "bellman_equation mdp x (vi_current_utilities v) = Inr (u, b)" by blast
    from k assms(2) obtain c where c: "vi_current_utilities v x = Some c" by blast
    show "\<exists>t'. vi_sweep_step mdp x t = Inr t'
        \<and> vi_current_utilities (fst t') = vi_current_utilities v"
      by (simp add: vi_sweep_step_def t b lookup_def c Let_def)
  qed
  then show ?thesis by blast
qed

lemma vi_body_total:
  assumes "well_formed mdp" and "vi_tables_total mdp v" and "discount_factor mdp \<noteq> 0"
  shows "\<exists>v' delta. vi_body mdp max_error v
            = Inr (v', delta, delta < max_error * (1 - discount_factor mdp) / discount_factor mdp)
          \<and> vi_tables_total mdp v' \<and> 0 \<le> delta"
proof -
  define v1 where "v1 = v\<lparr>vi_current_utilities := vi_current_utilities v ++ vi_new_utilities v\<rparr>"
  have c1: "set (keys (states mdp)) \<subseteq> dom (vi_current_utilities v1)"
    and h1: "set (keys (states mdp)) \<subseteq> dom (vi_all_iteration_utilities v1)"
    using assms(2) by (auto simp: v1_def vi_tables_total_def)
  from vi_record_total [OF h1 c1] obtain v2 where
    r: "for_each vi_record_step (keys (states mdp)) v1 = Inr v2"
    and h2: "set (keys (states mdp)) \<subseteq> dom (vi_all_iteration_utilities v2)"
    and c2: "set (keys (states mdp)) \<subseteq> dom (vi_current_utilities v2)"
    by blast
  from vi_sweep_total [OF assms(1) c2 subset_refl, of 0] obtain v3 delta where
    s: "for_each (vi_sweep_step mdp) (keys (states mdp)) (v2, 0) = Inr (v3, delta)"
    by force
  have b: "vi_body mdp max_error v
            = Inr (v3, delta, delta < max_error * (1 - discount_factor mdp) / discount_factor mdp)"
    using assms(3) by (simp add: vi_body_def Let_def v1_def [symmetric] r s)
  note sw = vi_sweep_Inr [OF s]
  have "vi_tables_total mdp v3"
    unfolding vi_tables_total_def using sw h2 by auto
  moreover have "0 \<le> delta"
    using vi_body_Inr(3) [OF b] by (simp add: Max_ge)
  ultimately show ?thesis using b by blast
qed

lemma vi_init_fold:
  fixes v :: vi_locals
  defines "F \<equiv> (\<lambda>st v. v\<lparr>vi_new_utilities := (vi_new_utilities v)(st \<mapsto> 0),
                     vi_all_iteration_utilities := (vi_all_iteration_utilities v)(st \<mapsto> []),
                     vi_optimal_policy := (vi_optimal_policy v)(st \<mapsto> None)\<rparr>)"
  shows "vi_new_utilities (fold F xs v) st = (if st \<in> set xs then Some 0 else vi_new_utilities v st)"
    and "vi_all_iteration_utilities (fold F xs v) st
           = (if st \<in> set xs then Some [] else vi_all_iteration_utilities v st)"
proof -
  have fx: "\<And>x v. vi_new_utilities (F x v) = (vi_new_utilities v)(x \<mapsto> 0)"
    "\<And>x v. vi_all_iteration_utilities (F x v) = (vi_all_iteration_utilities v)(x \<mapsto> [])"
    by (simp_all add: F_def)
  show "vi_new_utilities (fold F xs v) st = (if st \<in> set xs then Some 0 else vi_new_utilities v st)"
    by (induction xs arbitrary: v) (simp_all add: fx)
  show "vi_all_iteration_utilities (fold F xs v) st
           = (if st \<in> set xs then Some [] else vi_all_iteration_utilities v st)"
    by (induction xs arbitrary: v) (simp_all add: fx)
qed

lemma vi_init_total: "vi_tables_total mdp (vi_init mdp)"
  unfolding vi_tables_total_def vi_init_def by (auto simp: vi_init_fold)

lemma vi_loop_never_returns:
  assumes "vi_loop mdp max_error v = Some y"
  shows "\<not> (well_formed mdp \<and> vi_tables_total mdp v \<and> 1 \<le> discount_factor mdp \<and> 0 \<le> max_error)"
proof (rule vi_loop.raw_induct [OF _ assms])
  fix loop :: "maze \<Rightarrow> real \<Rightarrow> vi_locals \<Rightarrow> (error + result) option"
  fix mdp max_error v y
  let ?Q = "\<lambda>mdp max_error v.
     well_formed mdp \<and> vi_tables_total mdp v \<and> 1 \<le> discount_factor mdp \<and> 0 \<le> max_error"
  assume ih: "\<And>mdp max_error v y. loop mdp max_error v = Some y \<Longrightarrow> \<not> ?Q mdp max_error v"
    and eq: "(case vi_body mdp max_error v of Inl e \<Rightarrow> Some (Inl e)
      | Inr (v', max_utility_difference, stop) \<Rightarrow>
          if stop
          then Some (make_result mdp (vi_current_utilities v') (vi_optimal_policy v')
                       (vi_all_iteration_utilities v'))
          else loop mdp max_error v') = Some y"
  show "\<not> ?Q mdp max_error v"
  proof
    assume q: "?Q mdp max_error v"
    then have g: "discount_factor mdp \<noteq> 0" by auto
    from vi_body_total [OF _ _ g, of v max_error] q obtain v' delta where
      b: "vi_body mdp max_error v
            = Inr (v', delta, delta < max_error * (1 - discount_factor mdp) / discount_factor mdp)"
      and t: "vi_tables_total mdp v'" and d: "0 \<le> delta"
      by blast
    have "max_error * (1 - discount_factor mdp) \<le> 0"
      using q by (simp add: mult_nonneg_nonpos)
    then have "max_error * (1 - discount_factor mdp) / discount_factor mdp \<le> 0"
      using q by (simp add: divide_nonpos_pos)
    with d have "\<not> delta < max_error * (1 - discount_factor mdp) / discount_factor mdp"
      by simp
    with eq b have "loop mdp max_error v' = Some y" by simp
    from ih [OF this] q t show False by simp
  qed
qed

lemma value_iteration_diverges:
  assumes "well_formed mdp" and "1 \<le> discount_factor mdp" and "0 \<le> max_error"
  shows "value_iteration mdp max_error = None"
proof (cases "value_iteration mdp max_error")
  case None
  then show ?thesis .
next
  case (Some y)
  from vi_loop_never_returns [OF Some [unfolded value_iteration_def]] assms vi_init_total
  show ?thesis by simp
qed

text \<open>
  Claim C3, as the code has it. \<^verbatim>\<open>value_iteration\<close> has no check of the discount
  factor. On a maze that the constructor built, with a discount factor of at least 1
  and a non-negative \<^verbatim>\<open>max_error\<close>, it enters its loop, no sweep raises, the residual is
  never below the threshold, which is at most 0, and the call never returns: it gives
  neither a result nor an error.
\<close>

theorem value_iteration_unchecked_discount:
  assumes "Maze_init env start gamma = Inr mdp"
    and "1 \<le> gamma"
    and "0 \<le> max_error"
  shows "value_iteration mdp max_error = None"
  using value_iteration_diverges [OF Maze_init_well_formed [OF assms(1)], of max_error]
    assms(2,3) Maze_init_Inr(3) [OF assms(1)]
  by simp

theorem value_iteration_unchecked_discount_witness:
  "Maze_init [[Some 1, None]] (0, 0) 2 = Inr (walled_maze 2)
   \<and> (1 :: real) \<le> 2 \<and> (0 :: real) \<le> 1
   \<and> value_iteration (walled_maze 2) 1 = None"
proof -
  have h1: "Maze_init [[Some 1, None]] (0, 0) 2 = Inr (walled_maze 2)"
    by (rule Maze_init_walled)
  have h2: "(1 :: real) \<le> 2" and h3: "(0 :: real) \<le> 1" by simp_all
  show ?thesis
    using h1 h2 h3 value_iteration_unchecked_discount [OF h1 h2 h3] by simp
qed

text \<open>
  The claim as written fails: with the discount factor 1 on the grid \<^verbatim>\<open>[[1]]\<close> the call
  does not fail, before the loop or later; it runs forever.
\<close>

theorem value_iteration_discount_one_counterexample:
  "Maze_init [[Some 1]] (0, 0) 1 = Inr (one_cell_maze 1 1)
   \<and> value_iteration (one_cell_maze 1 1) 1 = None"
proof -
  have m: "Maze_init [[Some 1]] (0, 0) 1 = Inr (one_cell_maze 1 1)"
    by (rule Maze_init_one_cell)
  have "value_iteration (one_cell_maze 1 1) 1 = None"
    by (rule value_iteration_diverges [OF Maze_init_well_formed [OF m]])
      (simp_all add: one_cell_fields)
  with m show ?thesis by simp
qed

subsection \<open>The expected utility and its reference form\<close>



subsection \<open>Value iteration on the one-cell maze, in general\<close>

text \<open>
  With one state the iterates are \<open>U\<^sub>j = r \<cdot> (1 - \<gamma>\<^sup>j) / (1 - \<gamma>)\<close> and the residual after
  sweep \<open>j\<close> is \<open>|r| \<cdot> \<gamma>\<^sup>j\<close>. For a discount factor in (0, 1) and a positive \<^verbatim>\<open>max_error\<close>
  the loop returns, at the first \<open>k\<close> whose residual is below the threshold, and it
  returns \<open>U\<^sub>k\<close>, which is within \<open>max_error / \<gamma>\<close> of \<open>r / (1 - \<gamma>)\<close>.
\<close>

lemma one_cell_iterate_step:
  fixes r gamma :: real
  assumes "gamma \<noteq> 1"
  shows "r + gamma * (r * (1 - gamma ^ j) / (1 - gamma)) = r * (1 - gamma ^ Suc j) / (1 - gamma)"
  using assms by (simp add: field_simps)

lemma one_cell_residual:
  fixes r gamma :: real
  assumes "0 < gamma" "gamma < 1"
  shows "\<bar>r * (1 - gamma ^ Suc j) / (1 - gamma) - r * (1 - gamma ^ j) / (1 - gamma)\<bar>
         = \<bar>r\<bar> * gamma ^ j"
proof -
  have "r * (1 - gamma ^ Suc j) / (1 - gamma) - r * (1 - gamma ^ j) / (1 - gamma)
        = r * ((1 - gamma ^ Suc j) - (1 - gamma ^ j)) / (1 - gamma)"
    by (simp add: diff_divide_distrib right_diff_distrib)
  also have "(1 - gamma ^ Suc j) - (1 - gamma ^ j) = gamma ^ j * (1 - gamma)"
    by (simp add: algebra_simps)
  also have "r * (gamma ^ j * (1 - gamma)) / (1 - gamma) = r * gamma ^ j"
    using assms by simp
  finally show ?thesis using assms by (simp add: abs_mult)
qed

lemma one_cell_vi_body_iterate:
  fixes r gamma max_error :: real
  assumes "0 < gamma" "gamma < 1"
  shows "vi_body (one_cell_maze r gamma) max_error
           \<lparr>vi_current_utilities = c,
            vi_new_utilities = [(0, 0) \<mapsto> r * (1 - gamma ^ j) / (1 - gamma)],
            vi_all_iteration_utilities = [(0, 0) \<mapsto> h], vi_optimal_policy = [(0, 0) \<mapsto> p]\<rparr>
         = Inr (\<lparr>vi_current_utilities = c ++ [(0, 0) \<mapsto> r * (1 - gamma ^ j) / (1 - gamma)],
                 vi_new_utilities = [(0, 0) \<mapsto> r * (1 - gamma ^ Suc j) / (1 - gamma)],
                 vi_all_iteration_utilities = [(0, 0) \<mapsto> h @ [r * (1 - gamma ^ j) / (1 - gamma)]],
                 vi_optimal_policy = [(0, 0) \<mapsto> Some UP]\<rparr>,
                \<bar>r\<bar> * gamma ^ j,
                \<bar>r\<bar> * gamma ^ j < max_error * (1 - gamma) / gamma)"
proof -
  define u where "u = r * (1 - gamma ^ j) / (1 - gamma)"
  define u' where "u' = r * (1 - gamma ^ Suc j) / (1 - gamma)"
  have g: "gamma \<noteq> 0" "gamma \<noteq> 1" using assms by simp_all
  have e1: "r + gamma * u = u'"
    unfolding u_def u'_def by (rule one_cell_iterate_step [OF g(2)])
  have e2: "\<bar>u' - u\<bar> = \<bar>r\<bar> * gamma ^ j"
    unfolding u_def u'_def by (rule one_cell_residual [OF assms])
  have "vi_body (one_cell_maze r gamma) max_error
           \<lparr>vi_current_utilities = c, vi_new_utilities = [(0, 0) \<mapsto> u],
            vi_all_iteration_utilities = [(0, 0) \<mapsto> h], vi_optimal_policy = [(0, 0) \<mapsto> p]\<rparr>
         = Inr (\<lparr>vi_current_utilities = c ++ [(0, 0) \<mapsto> u],
                 vi_new_utilities = [(0, 0) \<mapsto> u'],
                 vi_all_iteration_utilities = [(0, 0) \<mapsto> h @ [u]],
                 vi_optimal_policy = [(0, 0) \<mapsto> Some UP]\<rparr>,
                \<bar>r\<bar> * gamma ^ j,
                \<bar>r\<bar> * gamma ^ j < max_error * (1 - gamma) / gamma)"
    unfolding one_cell_vi_body [OF g(1)] e1 e2 ..
  then show ?thesis unfolding u_def u'_def .
qed

lemma one_cell_vi_loop_stops:
  fixes r gamma max_error :: real
  assumes g: "0 < gamma" "gamma < 1"
    and j: "\<bar>r\<bar> * gamma ^ j < max_error * (1 - gamma) / gamma"
  shows "\<exists>res. vi_loop (one_cell_maze r gamma) max_error
           \<lparr>vi_current_utilities = c,
            vi_new_utilities = [(0, 0) \<mapsto> r * (1 - gamma ^ j) / (1 - gamma)],
            vi_all_iteration_utilities = [(0, 0) \<mapsto> h], vi_optimal_policy = [(0, 0) \<mapsto> p]\<rparr>
          = Some (Inr res)
      \<and> converged_utilities res (0, 0) = Some (r * (1 - gamma ^ j) / (1 - gamma))"
proof -
  define res where
    "res = \<lparr>converged_utilities = c ++ [(0, 0) \<mapsto> r * (1 - gamma ^ j) / (1 - gamma)],
            optimal_policy = [(0, 0) \<mapsto> Some UP],
            num_iterations = length (h @ [r * (1 - gamma ^ j) / (1 - gamma)]),
            iteration_utilities = [(0, 0) \<mapsto> h @ [r * (1 - gamma ^ j) / (1 - gamma)]]\<rparr>"
  have "vi_loop (one_cell_maze r gamma) max_error
           \<lparr>vi_current_utilities = c,
            vi_new_utilities = [(0, 0) \<mapsto> r * (1 - gamma ^ j) / (1 - gamma)],
            vi_all_iteration_utilities = [(0, 0) \<mapsto> h], vi_optimal_policy = [(0, 0) \<mapsto> p]\<rparr>
        = Some (Inr res)"
    using j unfolding res_def
    by (subst vi_loop.simps, subst one_cell_vi_body_iterate [OF g])
      (simp add: make_result_def one_cell_fields)
  moreover have "converged_utilities res (0, 0) = Some (r * (1 - gamma ^ j) / (1 - gamma))"
    by (simp add: res_def)
  ultimately show ?thesis by blast
qed

lemma one_cell_vi_loop_returns:
  fixes r gamma max_error :: real
  assumes g: "0 < gamma" "gamma < 1"
    and N: "\<bar>r\<bar> * gamma ^ N < max_error * (1 - gamma) / gamma"
  shows "j \<le> N \<Longrightarrow>
    \<exists>k res. \<bar>r\<bar> * gamma ^ k < max_error * (1 - gamma) / gamma
      \<and> vi_loop (one_cell_maze r gamma) max_error
           \<lparr>vi_current_utilities = c,
            vi_new_utilities = [(0, 0) \<mapsto> r * (1 - gamma ^ j) / (1 - gamma)],
            vi_all_iteration_utilities = [(0, 0) \<mapsto> h], vi_optimal_policy = [(0, 0) \<mapsto> p]\<rparr>
          = Some (Inr res)
      \<and> converged_utilities res (0, 0) = Some (r * (1 - gamma ^ k) / (1 - gamma))"
proof (induction "N - j" arbitrary: j c h p)
  case 0
  then have "\<bar>r\<bar> * gamma ^ j < max_error * (1 - gamma) / gamma" using N by simp
  from this one_cell_vi_loop_stops [OF g this] show ?case by blast
next
  case (Suc n)
  then have jn: "Suc j \<le> N" "n = N - Suc j" by simp_all
  show ?case
  proof (cases "\<bar>r\<bar> * gamma ^ j < max_error * (1 - gamma) / gamma")
    case True
    from this one_cell_vi_loop_stops [OF g this] show ?thesis by blast
  next
    case False
    have step: "vi_loop (one_cell_maze r gamma) max_error
           \<lparr>vi_current_utilities = c,
            vi_new_utilities = [(0, 0) \<mapsto> r * (1 - gamma ^ j) / (1 - gamma)],
            vi_all_iteration_utilities = [(0, 0) \<mapsto> h], vi_optimal_policy = [(0, 0) \<mapsto> p]\<rparr>
        = vi_loop (one_cell_maze r gamma) max_error
           \<lparr>vi_current_utilities = c ++ [(0, 0) \<mapsto> r * (1 - gamma ^ j) / (1 - gamma)],
            vi_new_utilities = [(0, 0) \<mapsto> r * (1 - gamma ^ Suc j) / (1 - gamma)],
            vi_all_iteration_utilities = [(0, 0) \<mapsto> h @ [r * (1 - gamma ^ j) / (1 - gamma)]],
            vi_optimal_policy = [(0, 0) \<mapsto> Some UP]\<rparr>"
      using False
      by (subst vi_loop.simps, subst one_cell_vi_body_iterate [OF g]) simp
    from Suc.hyps(1) [OF jn(2) jn(1)] show ?thesis unfolding step .
  qed
qed

lemma one_cell_value_iteration_returns:
  fixes r gamma max_error :: real
  assumes "0 < gamma" "gamma < 1" "0 < max_error"
  shows "\<exists>res u. value_iteration (one_cell_maze r gamma) max_error = Some (Inr res)
           \<and> converged_utilities res (0, 0) = Some u
           \<and> \<bar>u - r / (1 - gamma)\<bar> < max_error / gamma"
proof -
  let ?T = "max_error * (1 - gamma) / gamma"
  have T: "0 < ?T" using assms by simp
  have "\<exists>N. \<bar>r\<bar> * gamma ^ N < ?T"
  proof (cases "r = 0")
    case True
    then show ?thesis using T by simp
  next
    case False
    then have "0 < ?T / \<bar>r\<bar>" by (intro divide_pos_pos [OF T]) simp
    from real_arch_pow_inv [OF this assms(2)] obtain N where "gamma ^ N < ?T / \<bar>r\<bar>" by blast
    moreover have "0 < \<bar>r\<bar>" using False by simp
    ultimately have "gamma ^ N * \<bar>r\<bar> < ?T" by (simp only: pos_less_divide_eq)
    then have "\<bar>r\<bar> * gamma ^ N < ?T" by (simp only: mult.commute)
    then show ?thesis by blast
  qed
  then obtain N where N: "\<bar>r\<bar> * gamma ^ N < ?T" by blast
  from one_cell_vi_loop_returns [OF assms(1,2) N, of 0 Map.empty "[]" None]
  obtain k res where
    k: "\<bar>r\<bar> * gamma ^ k < ?T"
    and res: "value_iteration (one_cell_maze r gamma) max_error = Some (Inr res)"
    and u: "converged_utilities res (0, 0) = Some (r * (1 - gamma ^ k) / (1 - gamma))"
    by (auto simp: value_iteration_def one_cell_vi_init)
  have "r * (1 - gamma ^ k) / (1 - gamma) - r / (1 - gamma)
        = (r * (1 - gamma ^ k) - r) / (1 - gamma)"
    by (simp add: diff_divide_distrib)
  also have "r * (1 - gamma ^ k) - r = - (r * gamma ^ k)" by (simp add: algebra_simps)
  finally have "r * (1 - gamma ^ k) / (1 - gamma) - r / (1 - gamma)
        = - (r * gamma ^ k) / (1 - gamma)" .
  then have "\<bar>r * (1 - gamma ^ k) / (1 - gamma) - r / (1 - gamma)\<bar> = \<bar>r\<bar> * gamma ^ k / (1 - gamma)"
    using assms by (simp add: abs_mult)
  also have "\<dots> < ?T / (1 - gamma)"
    by (rule divide_strict_right_mono [OF k]) (use assms in simp)
  also have "?T / (1 - gamma) = max_error / gamma" using assms by simp
  finally show ?thesis using res u by blast
qed

section \<open>The solvers on Python floats\<close>

subsection \<open>Python floats\<close>

lemma float_of_Finite: "\<bar>x\<bar> \<le> 10 ^ 300 \<Longrightarrow> float_of x = Finite x"
  by (simp add: float_of_def overflow_threshold_def abs_le_iff)

lemma float_of_small: "\<bar>x\<bar> \<le> 1000 \<Longrightarrow> float_of x = Finite x"
  by (rule float_of_Finite) simp

lemma float_of_cases: "float_of x = Finite x \<or> float_of x = PosInf \<or> float_of x = NegInf"
  by (simp add: float_of_def)

lemma fl_less_irrefl: "\<not> fl_less a a"
  by (cases a) simp_all

lemma fl_less_not_above:
  "fl_less a b \<Longrightarrow> \<not> fl_less a v \<Longrightarrow> \<not> fl_less b v"
  by (cases a; cases b; cases v) auto

lemma fl_less_NegInf: "fl_less a b \<Longrightarrow> fl_less NegInf b"
  by (cases a; cases b) auto

lemma fl_less_NegInf_iff: "fl_less NegInf b \<longleftrightarrow> b \<noteq> NegInf \<and> b \<noteq> NaN"
  by (cases b) auto

subsection \<open>The expected utility on floats\<close>

lemma for_each_foldl:
  assumes "for_each body ks acc = Inr v"
    and "\<And>k t t'. k \<in> set ks \<Longrightarrow> body k t = Inr t' \<Longrightarrow> t' = f t k"
  shows "v = foldl f acc ks"
  using assms
proof (induction ks arbitrary: acc)
  case Nil
  then show ?case by simp
next
  case (Cons k ks)
  from Cons.prems(1) obtain t where t: "body k acc = Inr t" and rest: "for_each body ks t = Inr v"
    by (auto split: sum.splits)
  have "t = f acc k" using Cons.prems(2) [of k acc t] t by simp
  moreover have "v = foldl f t ks"
    by (rule Cons.IH [OF rest]) (use Cons.prems(2) in simp)
  ultimately show ?case by simp
qed

lemma float_expected_utility_step_Inr:
  assumes "float_expected_utility_step mdp st a U outcomes k acc = Inr acc'"
    and "getitem (states mdp) st = Inr action_map" and "getitem action_map a = Inr outcomes"
  shows "\<exists>entry u. map_of outcomes k = Some entry \<and> U (next_state entry) = Some u
           \<and> transition_model mdp st a k = Inr (probability entry)
           \<and> acc' = fl_add acc (fl_mul (Finite (probability entry)) u)"
  using assms
  by (auto simp: float_expected_utility_step_def transition_model_def lookup_Inr
      dest!: getitem_Inr split: sum.splits)

lemma foldl_keys_distinct:
  assumes "distinct (map fst xs)"
  shows "foldl (\<lambda>t k. F t (map_of xs k)) acc (map fst xs) = foldl (\<lambda>t e. F t (Some e)) acc (map snd xs)"
proof -
  have "foldl (\<lambda>t k. F t (map_of xs k)) acc (map fst xs)
        = foldl (\<lambda>t g. g t) acc (map (\<lambda>k. (\<lambda>t. F t (map_of xs k))) (map fst xs))"
    by (simp add: foldl_map)
  also have "map (\<lambda>k. (\<lambda>t. F t (map_of xs k))) (map fst xs)
        = map (\<lambda>(k, v). (\<lambda>t. F t (Some v))) xs"
    by (rule map_of_keys_distinct [OF assms, of "\<lambda>x. (\<lambda>t. F t x)"])
  also have "foldl (\<lambda>t g. g t) acc (map (\<lambda>(k, v). (\<lambda>t. F t (Some v))) xs)
        = foldl (\<lambda>t e. F t (Some e)) acc (map snd xs)"
    by (simp add: foldl_map case_prod_unfold)
  finally show ?thesis .
qed

lemma float_get_expected_utility_Inr:
  assumes "float_get_expected_utility mdp st a U = Inr v"
  shows "\<exists>action_map outcomes.
           getitem (states mdp) st = Inr action_map \<and> getitem action_map a = Inr outcomes
         \<and> a \<in> set (keys action_map)
         \<and> v = foldl (\<lambda>t k. case map_of outcomes k of None \<Rightarrow> t
                       | Some entry \<Rightarrow>
                           fl_add t (fl_mul (Finite (probability entry))
                                       (float_utility_of U (next_state entry))))
                 (Finite 0) (keys outcomes)"
proof -
  from assms obtain action_map outcomes where
    g: "getitem (states mdp) st = Inr action_map" "getitem action_map a = Inr outcomes"
    and f: "for_each (float_expected_utility_step mdp st a U outcomes) (keys outcomes) (Finite 0)
              = Inr v"
    by (auto simp: float_get_expected_utility_def split: sum.splits)
  have "v = foldl (\<lambda>t k. case map_of outcomes k of None \<Rightarrow> t
                       | Some entry \<Rightarrow>
                           fl_add t (fl_mul (Finite (probability entry))
                                       (float_utility_of U (next_state entry))))
                 (Finite 0) (keys outcomes)"
  proof (rule for_each_foldl [OF f])
    fix k t t'
    assume "float_expected_utility_step mdp st a U outcomes k t = Inr t'"
    from float_expected_utility_step_Inr [OF this g]
    show "t' = (case map_of outcomes k of None \<Rightarrow> t
                | Some entry \<Rightarrow>
                    fl_add t (fl_mul (Finite (probability entry))
                                (float_utility_of U (next_state entry))))"
      by (auto simp: float_utility_of_def)
  qed
  moreover have "a \<in> set (keys action_map)"
    using getitem_Inr_mem [OF g(2)] by (force simp: keys_def)
  ultimately show ?thesis using g by simp
qed

lemma float_get_expected_utility_spec:
  assumes "float_get_expected_utility mdp st a U = Inr v" and "dict_keys_unique mdp"
  shows "v = float_spec_expected_utility mdp U st a"
proof -
  from float_get_expected_utility_Inr [OF assms(1)] obtain action_map outcomes where
    g: "getitem (states mdp) st = Inr action_map" "getitem action_map a = Inr outcomes"
    and v: "v = foldl (\<lambda>t k. case map_of outcomes k of None \<Rightarrow> t
                       | Some entry \<Rightarrow>
                           fl_add t (fl_mul (Finite (probability entry))
                                       (float_utility_of U (next_state entry))))
                 (Finite 0) (keys outcomes)"
    by blast
  have "(st, action_map) \<in> set (states mdp)" "(a, outcomes) \<in> set action_map"
    using g by (simp_all add: getitem_Inr_mem)
  with assms(2) have d: "distinct (map fst outcomes)"
    by (fastforce simp: dict_keys_unique_def keys_def)
  have so: "stored_outcomes mdp st a = map snd outcomes"
    using g by (simp add: stored_outcomes_def getitem_Inr)
  show ?thesis
    unfolding v keys_def float_spec_expected_utility_def so
    using foldl_keys_distinct [OF d, of "\<lambda>t x. case x of None \<Rightarrow> t
                       | Some entry \<Rightarrow>
                           fl_add t (fl_mul (Finite (probability entry))
                                       (float_utility_of U (next_state entry)))" "Finite 0"]
    by simp
qed

subsection \<open>The arg-max loop on floats\<close>

lemma float_best_action_step_Inr:
  assumes "float_best_action_step mdp st U a acc = Inr acc'"
  shows "\<exists>v. float_get_expected_utility mdp st a U = Inr v
           \<and> (acc' = (v, Some a) \<and> fl_less (fst acc) v
              \<or> acc' = acc \<and> \<not> fl_less (fst acc) v)"
  using assms
  by (auto simp: float_best_action_step_def split: sum.splits if_splits)

lemma float_best_action_for_each:
  assumes "for_each (float_best_action_step mdp st U) as acc = Inr (mx, b)"
  shows "(\<forall>a\<in>set as. \<exists>v. float_get_expected_utility mdp st a U = Inr v \<and> \<not> fl_less mx v)
       \<and> (\<forall>w. \<not> fl_less (fst acc) w \<longrightarrow> \<not> fl_less mx w)
       \<and> ((mx, b) = acc
          \<or> (\<exists>a\<in>set as. b = Some a \<and> float_get_expected_utility mdp st a U = Inr mx
                \<and> fl_less NegInf mx))"
  using assms
proof (induction as arbitrary: acc)
  case Nil
  then show ?case by simp
next
  case (Cons a as)
  from Cons.prems obtain acc1 where
    step: "float_best_action_step mdp st U a acc = Inr acc1"
    and rest: "for_each (float_best_action_step mdp st U) as acc1 = Inr (mx, b)"
    by (auto split: sum.splits)
  from float_best_action_step_Inr [OF step] obtain v where
    v: "float_get_expected_utility mdp st a U = Inr v"
    and c: "acc1 = (v, Some a) \<and> fl_less (fst acc) v \<or> acc1 = acc \<and> \<not> fl_less (fst acc) v"
    by blast
  note ih = Cons.IH [OF rest]
  from ih have mono1: "\<forall>w. \<not> fl_less (fst acc1) w \<longrightarrow> \<not> fl_less mx w" by blast
  have mono0: "\<forall>w. \<not> fl_less (fst acc) w \<longrightarrow> \<not> fl_less (fst acc1) w"
  proof (intro allI impI)
    fix w assume w: "\<not> fl_less (fst acc) w"
    from c show "\<not> fl_less (fst acc1) w"
    proof
      assume "acc1 = (v, Some a) \<and> fl_less (fst acc) v"
      with fl_less_not_above [of "fst acc" v w] w show ?thesis by simp
    next
      assume "acc1 = acc \<and> \<not> fl_less (fst acc) v"
      with w show ?thesis by simp
    qed
  qed
  have "\<not> fl_less (fst acc1) v"
  proof -
    from c show ?thesis
    proof
      assume "acc1 = (v, Some a) \<and> fl_less (fst acc) v"
      then show ?thesis by (simp add: fl_less_irrefl)
    next
      assume "acc1 = acc \<and> \<not> fl_less (fst acc) v"
      then show ?thesis by simp
    qed
  qed
  with mono1 have av: "\<not> fl_less mx v" by blast
  have 1: "\<forall>a'\<in>set (a # as). \<exists>v. float_get_expected_utility mdp st a' U = Inr v \<and> \<not> fl_less mx v"
    using ih v av by auto
  have 2: "\<forall>w. \<not> fl_less (fst acc) w \<longrightarrow> \<not> fl_less mx w"
    using mono0 mono1 by blast
  have 3: "(mx, b) = acc
          \<or> (\<exists>a'\<in>set (a # as). b = Some a' \<and> float_get_expected_utility mdp st a' U = Inr mx
                \<and> fl_less NegInf mx)"
  proof -
    from ih have "(mx, b) = acc1
          \<or> (\<exists>a'\<in>set as. b = Some a' \<and> float_get_expected_utility mdp st a' U = Inr mx
                \<and> fl_less NegInf mx)" by blast
    then show ?thesis
    proof
      assume e: "(mx, b) = acc1"
      from c show ?thesis
      proof
        assume "acc1 = (v, Some a) \<and> fl_less (fst acc) v"
        then have "acc1 = (v, Some a)" "fl_less NegInf v"
          using fl_less_NegInf [of "fst acc" v] by simp_all
        with e v have "b = Some a \<and> float_get_expected_utility mdp st a U = Inr mx
                \<and> fl_less NegInf mx" by simp
        then show ?thesis by simp
      next
        assume "acc1 = acc \<and> \<not> fl_less (fst acc) v"
        with e show ?thesis by simp
      qed
    next
      assume "\<exists>a'\<in>set as. b = Some a' \<and> float_get_expected_utility mdp st a' U = Inr mx
                \<and> fl_less NegInf mx"
      then show ?thesis by auto
    qed
  qed
  show ?case using 1 2 3 by blast
qed

lemma float_best_action_loop_Inr:
  assumes "float_best_action_loop mdp st U action_map = Inr (mx, b)"
  shows "\<forall>a'\<in>set (keys action_map). \<exists>v.
           float_get_expected_utility mdp st a' U = Inr v \<and> \<not> fl_less mx v"
    and "b = None \<Longrightarrow> mx = NegInf"
    and "b = Some a \<Longrightarrow> a \<in> set (keys action_map)
           \<and> float_get_expected_utility mdp st a U = Inr mx \<and> fl_less NegInf mx"
proof -
  note l = float_best_action_for_each [OF assms [unfolded float_best_action_loop_def]]
  show "\<forall>a'\<in>set (keys action_map). \<exists>v.
           float_get_expected_utility mdp st a' U = Inr v \<and> \<not> fl_less mx v"
    using l by blast
  show "mx = NegInf" if "b = None" using l that by auto
  show "a \<in> set (keys action_map)
           \<and> float_get_expected_utility mdp st a U = Inr mx \<and> fl_less NegInf mx"
    if "b = Some a" using l that by auto
qed

lemma float_bellman_equation_Inr:
  assumes "float_bellman_equation mdp st U = Inr (u, b)"
  shows "\<exists>action_map r mx.
           getitem (states mdp) st = Inr action_map
         \<and> reward_function mdp st = Inr (Some r)
         \<and> float_best_action_loop mdp st U action_map = Inr (mx, b)
         \<and> u = fl_add (Finite r) (fl_mul (Finite (discount_factor mdp)) mx)"
  using assms
  by (auto simp: float_bellman_equation_def split: sum.splits option.splits)

subsection \<open>Value iteration on floats\<close>

lemma float_vi_record_step_Inr:
  assumes "float_vi_record_step st v = Inr v'"
  shows "\<exists>h u. fvi_all_iteration_utilities v st = Some h \<and> fvi_current_utilities v st = Some u
           \<and> v' = v\<lparr>fvi_all_iteration_utilities := (fvi_all_iteration_utilities v)(st \<mapsto> h @ [u])\<rparr>"
  using assms by (auto simp: float_vi_record_step_def lookup_Inr split: sum.splits)

lemma float_vi_record_keeps:
  assumes "for_each float_vi_record_step xs v = Inr v'"
  shows "fvi_current_utilities v' = fvi_current_utilities v"
proof (rule for_each_invariant [OF assms, where
      P = "\<lambda>t. fvi_current_utilities t = fvi_current_utilities v"])
  show "fvi_current_utilities v = fvi_current_utilities v" by simp
next
  fix x t t'
  assume "fvi_current_utilities t = fvi_current_utilities v" "float_vi_record_step x t = Inr t'"
  then show "fvi_current_utilities t' = fvi_current_utilities v"
    by (auto dest!: float_vi_record_step_Inr)
qed

lemma float_vi_sweep_step_Inr:
  assumes "float_vi_sweep_step mdp st (v, d) = Inr (v', d')"
  shows "\<exists>u b c. float_bellman_equation mdp st (fvi_current_utilities v) = Inr (u, b)
           \<and> fvi_current_utilities v st = Some c
           \<and> v' = v\<lparr>fvi_new_utilities := (fvi_new_utilities v)(st \<mapsto> u),
                     fvi_optimal_policy := (fvi_optimal_policy v)(st \<mapsto> b)\<rparr>
           \<and> d' = py_max d (fl_abs (fl_sub u c))"
  using assms
  by (auto simp: float_vi_sweep_step_def lookup_Inr Let_def split: sum.splits prod.splits)

lemma float_vi_sweep_Inr:
  assumes "for_each (float_vi_sweep_step mdp) xs (v, d) = Inr (v', d')"
  shows "fvi_current_utilities v' = fvi_current_utilities v
       \<and> (\<forall>s\<in>set xs. \<exists>u b. float_bellman_equation mdp s (fvi_current_utilities v) = Inr (u, b)
             \<and> fvi_new_utilities v' s = Some u \<and> fvi_optimal_policy v' s = Some b)
       \<and> (\<forall>s. s \<notin> set xs \<longrightarrow> fvi_new_utilities v' s = fvi_new_utilities v s
             \<and> fvi_optimal_policy v' s = fvi_optimal_policy v s)"
  using assms
proof (induction xs arbitrary: v d)
  case Nil
  then show ?case by simp
next
  case (Cons x xs)
  from Cons.prems obtain v1 d1 where
    step: "float_vi_sweep_step mdp x (v, d) = Inr (v1, d1)"
    and rest: "for_each (float_vi_sweep_step mdp) xs (v1, d1) = Inr (v', d')"
    by (auto split: sum.splits)
  from float_vi_sweep_step_Inr [OF step] obtain u b c where
    bell: "float_bellman_equation mdp x (fvi_current_utilities v) = Inr (u, b)"
    and v1: "v1 = v\<lparr>fvi_new_utilities := (fvi_new_utilities v)(x \<mapsto> u),
                     fvi_optimal_policy := (fvi_optimal_policy v)(x \<mapsto> b)\<rparr>"
    by blast
  note ih = Cons.IH [OF rest]
  have cur1: "fvi_current_utilities v1 = fvi_current_utilities v" by (simp add: v1)
  have newx: "\<exists>u b. float_bellman_equation mdp x (fvi_current_utilities v) = Inr (u, b)
             \<and> fvi_new_utilities v' x = Some u \<and> fvi_optimal_policy v' x = Some b"
  proof (cases "x \<in> set xs")
    case True
    with ih show ?thesis by (simp add: cur1)
  next
    case False
    from ih have "\<forall>s. s \<notin> set xs \<longrightarrow> fvi_new_utilities v' s = fvi_new_utilities v1 s
             \<and> fvi_optimal_policy v' s = fvi_optimal_policy v1 s" by blast
    with False have "fvi_new_utilities v' x = fvi_new_utilities v1 x
             \<and> fvi_optimal_policy v' x = fvi_optimal_policy v1 x" by blast
    then show ?thesis using bell by (simp add: v1)
  qed
  have 1: "fvi_current_utilities v' = fvi_current_utilities v"
    using ih by (simp add: v1)
  have 2: "\<forall>s\<in>set (x # xs). \<exists>u b.
               float_bellman_equation mdp s (fvi_current_utilities v) = Inr (u, b)
             \<and> fvi_new_utilities v' s = Some u \<and> fvi_optimal_policy v' s = Some b"
    using ih newx by (simp add: cur1)
  have 3: "\<forall>s. s \<notin> set (x # xs) \<longrightarrow> fvi_new_utilities v' s = fvi_new_utilities v s
             \<and> fvi_optimal_policy v' s = fvi_optimal_policy v s"
  proof (intro allI impI)
    fix s assume "s \<notin> set (x # xs)"
    then have s: "s \<notin> set xs" "s \<noteq> x" by simp_all
    with ih have "fvi_new_utilities v' s = fvi_new_utilities v1 s
             \<and> fvi_optimal_policy v' s = fvi_optimal_policy v1 s" by blast
    with s show "fvi_new_utilities v' s = fvi_new_utilities v s
             \<and> fvi_optimal_policy v' s = fvi_optimal_policy v s" by (simp add: v1)
  qed
  show ?case using 1 2 3 by blast
qed

lemma float_vi_body_Inr:
  assumes "float_vi_body mdp max_error v = Inr (v', delta, stop)"
  shows "\<forall>s\<in>set (keys (states mdp)). \<exists>u b.
           float_bellman_equation mdp s (fvi_current_utilities v') = Inr (u, b)
         \<and> fvi_new_utilities v' s = Some u \<and> fvi_optimal_policy v' s = Some b"
proof -
  define v1 where "v1 = v\<lparr>fvi_current_utilities := fvi_current_utilities v ++ fvi_new_utilities v\<rparr>"
  from assms obtain v2 where
    r: "for_each float_vi_record_step (keys (states mdp)) v1 = Inr v2"
    and s: "for_each (float_vi_sweep_step mdp) (keys (states mdp)) (v2, Finite 0)
              = Inr (v', delta)"
    by (auto simp: float_vi_body_def Let_def v1_def split: sum.splits if_splits)
  note sw = float_vi_sweep_Inr [OF s]
  then show ?thesis by simp
qed

lemma float_vi_loop_Inr:
  assumes "float_vi_loop mdp max_error v = Some y"
  shows "\<forall>res. y = Inr res \<longrightarrow>
   (\<exists>v0 v' delta. float_vi_body mdp max_error v0 = Inr (v', delta, True)
      \<and> float_make_result mdp (fvi_current_utilities v') (fvi_optimal_policy v')
           (fvi_all_iteration_utilities v') = Inr res)"
proof (rule float_vi_loop.raw_induct [OF _ assms])
  fix loop :: "maze \<Rightarrow> real \<Rightarrow> float_vi_locals \<Rightarrow> (error + float_result) option"
  fix mdp max_error v y
  let ?P = "\<lambda>mdp max_error y. \<forall>res. y = Inr res \<longrightarrow>
   (\<exists>v0 v' delta. float_vi_body mdp max_error v0 = Inr (v', delta, True)
      \<and> float_make_result mdp (fvi_current_utilities v') (fvi_optimal_policy v')
           (fvi_all_iteration_utilities v') = Inr res)"
  assume ih: "\<And>mdp max_error v y. loop mdp max_error v = Some y \<Longrightarrow> ?P mdp max_error y"
    and eq: "(case float_vi_body mdp max_error v of Inl e \<Rightarrow> Some (Inl e)
      | Inr (v', max_utility_difference, stop) \<Rightarrow>
          if stop
          then Some (float_make_result mdp (fvi_current_utilities v') (fvi_optimal_policy v')
                       (fvi_all_iteration_utilities v'))
          else loop mdp max_error v') = Some y"
  show "?P mdp max_error y"
  proof (cases "float_vi_body mdp max_error v")
    case (Inl e)
    with eq show ?thesis by auto
  next
    case (Inr r)
    obtain v' delta stop where r: "r = (v', delta, stop)" by (cases r) auto
    show ?thesis
    proof (cases stop)
      case True
      with eq Inr r show ?thesis by auto
    next
      case False
      with eq Inr r have "loop mdp max_error v' = Some y" by simp
      from ih [OF this] show ?thesis .
    qed
  qed
qed

lemma float_value_iteration_result:
  assumes "float_value_iteration mdp max_error = Some (Inr res)"
    and "st \<in> set (keys (states mdp))"
  shows "\<exists>u b. float_bellman_equation mdp st (float_converged_utilities res) = Inr (u, b)
           \<and> float_optimal_policy res st = Some b"
proof -
  from float_vi_loop_Inr [OF assms(1) [unfolded float_value_iteration_def]]
  obtain v0 v' delta where
    b: "float_vi_body mdp max_error v0 = Inr (v', delta, True)"
    and m: "float_make_result mdp (fvi_current_utilities v') (fvi_optimal_policy v')
           (fvi_all_iteration_utilities v') = Inr res"
    by blast
  from m have "float_converged_utilities res = fvi_current_utilities v'"
    "float_optimal_policy res = fvi_optimal_policy v'"
    by (auto simp: float_make_result_def split: option.splits)
  then show ?thesis using float_vi_body_Inr [OF b] assms(2) by auto
qed

lemma float_policy_entry:
  assumes "float_bellman_equation mdp st U = Inr (u, b)" and "dict_keys_unique mdp"
  shows "\<forall>a. b = Some a \<longrightarrow> a \<in> set (available_actions mdp st)
           \<and> fl_greater (float_spec_expected_utility mdp U st a) NegInf
           \<and> (\<forall>a'\<in>set (available_actions mdp st).
                 \<not> fl_greater (float_spec_expected_utility mdp U st a')
                      (float_spec_expected_utility mdp U st a))"
    and "b = None \<longrightarrow> (\<forall>a'\<in>set (available_actions mdp st).
                 \<not> fl_greater (float_spec_expected_utility mdp U st a') NegInf)"
proof -
  from float_bellman_equation_Inr [OF assms(1)] obtain action_map mx where
    g: "getitem (states mdp) st = Inr action_map"
    and l: "float_best_action_loop mdp st U action_map = Inr (mx, b)"
    by blast
  have av: "available_actions mdp st = keys action_map"
    using g by (simp add: available_actions_def getitem_Inr)
  note bl = float_best_action_loop_Inr [OF l]
  have below: "\<not> fl_less mx (float_spec_expected_utility mdp U st a')"
    if "a' \<in> set (keys action_map)" for a'
  proof -
    from bl(1) that obtain v where
      v: "float_get_expected_utility mdp st a' U = Inr v" "\<not> fl_less mx v" by blast
    from float_get_expected_utility_spec [OF v(1) assms(2)] v(2) show ?thesis by simp
  qed
  show "\<forall>a. b = Some a \<longrightarrow> a \<in> set (available_actions mdp st)
           \<and> fl_greater (float_spec_expected_utility mdp U st a) NegInf
           \<and> (\<forall>a'\<in>set (available_actions mdp st).
                 \<not> fl_greater (float_spec_expected_utility mdp U st a')
                      (float_spec_expected_utility mdp U st a))"
  proof (intro allI impI)
    fix a assume "b = Some a"
    from bl(3) [OF this] have a: "a \<in> set (keys action_map)"
      "float_get_expected_utility mdp st a U = Inr mx" "fl_less NegInf mx" by simp_all
    from float_get_expected_utility_spec [OF a(2) assms(2)]
    have mx: "mx = float_spec_expected_utility mdp U st a" .
    show "a \<in> set (available_actions mdp st)
           \<and> fl_greater (float_spec_expected_utility mdp U st a) NegInf
           \<and> (\<forall>a'\<in>set (available_actions mdp st).
                 \<not> fl_greater (float_spec_expected_utility mdp U st a')
                      (float_spec_expected_utility mdp U st a))"
      using a(1,3) below by (simp add: av mx [symmetric])
  qed
  show "b = None \<longrightarrow> (\<forall>a'\<in>set (available_actions mdp st).
                 \<not> fl_greater (float_spec_expected_utility mdp U st a') NegInf)"
  proof
    assume "b = None"
    from bl(2) [OF this] have "mx = NegInf" .
    with below show "\<forall>a'\<in>set (available_actions mdp st).
                 \<not> fl_greater (float_spec_expected_utility mdp U st a') NegInf"
      by (simp add: av)
  qed
qed

subsection \<open>Policy iteration on floats\<close>

lemma float_pi_init_policy:
  "st \<in> set (keys (states mdp)) \<Longrightarrow> fpi_policy (float_pi_init mdp) st = Some (Some UP)"
proof -
  define F where "F = (\<lambda>st (v :: float_pi_locals).
      v\<lparr>fpi_current_utilities := (fpi_current_utilities v)(st \<mapsto> Finite 0),
        fpi_policy := (fpi_policy v)(st \<mapsto> Some UP),
        fpi_all_iteration_utilities := (fpi_all_iteration_utilities v)(st \<mapsto> [Finite 0])\<rparr>)"
  have fx: "\<And>x v. fpi_policy (F x v) = (fpi_policy v)(x \<mapsto> Some UP)"
    by (simp add: F_def)
  have "fpi_policy (fold F xs v) st = (if st \<in> set xs then Some (Some UP) else fpi_policy v st)"
    for xs v
    by (induction xs arbitrary: v) (simp_all add: fx)
  then show "st \<in> set (keys (states mdp)) \<Longrightarrow> fpi_policy (float_pi_init mdp) st = Some (Some UP)"
    unfolding float_pi_init_def F_def [symmetric] by simp
qed

lemma float_policy_expected_utility_Inr:
  "float_policy_expected_utility mdp st policy U = Inr x \<Longrightarrow>
   \<exists>a. policy st = Some (Some a) \<and> float_get_expected_utility mdp st a U = Inr x"
  by (auto simp: float_policy_expected_utility_def lookup_Inr split: sum.splits option.splits)

lemma float_policy_improvement_step_Inr:
  assumes "float_policy_improvement_step mdp policy U st (imp, ch) = Inr (imp', ch')"
  shows "\<exists>a. imp' = imp(st \<mapsto> Some a)"
proof -
  from assms obtain action_map mx b x where
    l: "float_best_action_loop mdp st U action_map = Inr (mx, b)"
    and p: "float_policy_expected_utility mdp st policy U = Inr x"
    and c: "(fl_less x mx \<and> imp' = imp(st \<mapsto> b))
          \<or> (\<exists>a. lookup policy st = Inr a \<and> imp' = imp(st \<mapsto> a))"
    by (auto simp: float_policy_improvement_step_def split: sum.splits if_splits)
  from float_policy_expected_utility_Inr [OF p] obtain a where
    a: "policy st = Some (Some a)" by blast
  from c show ?thesis
  proof
    assume h: "fl_less x mx \<and> imp' = imp(st \<mapsto> b)"
    then have "mx \<noteq> NegInf" by (cases x; cases mx) auto
    with float_best_action_loop_Inr(2) [OF l] have "b \<noteq> None" by blast
    with h show ?thesis by auto
  next
    assume "\<exists>a. lookup policy st = Inr a \<and> imp' = imp(st \<mapsto> a)"
    with a show ?thesis by (auto simp: lookup_Inr)
  qed
qed

lemma float_policy_improvement_for_each:
  assumes "for_each (float_policy_improvement_step mdp policy U) xs acc = Inr acc'"
  shows "(\<forall>st\<in>set xs. \<exists>a. fst acc' st = Some (Some a))
       \<and> (\<forall>st. (\<exists>a. fst acc st = Some (Some a)) \<longrightarrow> (\<exists>a. fst acc' st = Some (Some a)))"
  using assms
proof (induction xs arbitrary: acc)
  case Nil
  then show ?case by simp
next
  case (Cons x xs)
  from Cons.prems obtain acc1 where
    step: "float_policy_improvement_step mdp policy U x acc = Inr acc1"
    and rest: "for_each (float_policy_improvement_step mdp policy U) xs acc1 = Inr acc'"
    by (auto split: sum.splits)
  from float_policy_improvement_step_Inr
    [of mdp policy U x "fst acc" "snd acc" "fst acc1" "snd acc1"] step
  obtain a where a: "fst acc1 = (fst acc)(x \<mapsto> Some a)" by auto
  note ih = Cons.IH [OF rest]
  from ih have keep: "\<forall>st. (\<exists>a. fst acc1 st = Some (Some a)) \<longrightarrow> (\<exists>a. fst acc' st = Some (Some a))"
    by blast
  have "fst acc1 x = Some (Some a)" by (simp add: a)
  with keep have x: "\<exists>a. fst acc' x = Some (Some a)" by blast
  have 2: "\<forall>st. (\<exists>a. fst acc st = Some (Some a)) \<longrightarrow> (\<exists>a. fst acc' st = Some (Some a))"
  proof (intro allI impI)
    fix st assume "\<exists>a. fst acc st = Some (Some a)"
    then have "\<exists>b. fst acc1 st = Some (Some b)" by (cases "st = x") (simp_all add: a)
    with keep show "\<exists>a. fst acc' st = Some (Some a)" by blast
  qed
  have "\<forall>st\<in>set (x # xs). \<exists>a. fst acc' st = Some (Some a)" using x ih by auto
  with 2 show ?case by blast
qed

lemma float_policy_improvement_Inr:
  assumes "float_policy_improvement mdp policy U = Inr (policy', changed)"
  shows "\<forall>st\<in>set (keys (states mdp)). \<exists>a. policy' st = Some (Some a)"
  using float_policy_improvement_for_each [OF assms [unfolded float_policy_improvement_def]]
  by simp

lemma float_pi_body_Inr:
  assumes "float_pi_body mdp k v = Inr v'"
  shows "\<forall>st\<in>set (keys (states mdp)). \<exists>a. fpi_policy v' st = Some (Some a)"
proof -
  from assms obtain c pol ch where
    i: "float_policy_improvement mdp (fpi_policy v) c = Inr (pol, ch)"
    and v': "fpi_policy v' = pol"
    by (auto simp: float_pi_body_def split: sum.splits prod.splits)
  show ?thesis using float_policy_improvement_Inr [OF i] by (simp add: v')
qed

lemma float_pi_loop_Inr:
  assumes "float_pi_loop mdp k v = Some y"
  shows "\<forall>v'. y = Inr v' \<longrightarrow>
           (\<forall>st\<in>set (keys (states mdp)). \<exists>a. fpi_policy v st = Some (Some a))
           \<longrightarrow> (\<forall>st\<in>set (keys (states mdp)). \<exists>a. fpi_policy v' st = Some (Some a))"
proof (rule float_pi_loop.raw_induct [OF _ assms])
  fix loop :: "maze \<Rightarrow> int \<Rightarrow> float_pi_locals \<Rightarrow> (error + float_pi_locals) option"
  fix mdp k v y
  let ?T = "\<lambda>mdp (v :: float_pi_locals).
           \<forall>st\<in>set (keys (states mdp)). \<exists>a. fpi_policy v st = Some (Some a)"
  let ?P = "\<lambda>mdp v y. \<forall>v'. y = Inr v' \<longrightarrow> ?T mdp v \<longrightarrow> ?T mdp v'"
  assume ih: "\<And>mdp k v y. loop mdp k v = Some y \<Longrightarrow> ?P mdp v y"
    and eq: "(if fpi_hasChanged v
      then (case float_pi_body mdp k v of Inl e \<Rightarrow> Some (Inl e) | Inr v' \<Rightarrow> loop mdp k v')
      else Some (Inr v)) = Some y"
  show "?P mdp v y"
  proof (cases "fpi_hasChanged v")
    case False
    with eq show ?thesis by auto
  next
    case True
    show ?thesis
    proof (cases "float_pi_body mdp k v")
      case (Inl e)
      with eq True show ?thesis by auto
    next
      case (Inr v1)
      with eq True have "loop mdp k v1 = Some y" by simp
      from ih [OF this] float_pi_body_Inr [OF Inr] show ?thesis by blast
    qed
  qed
qed

lemma float_policy_iteration_Inr:
  assumes "float_policy_iteration mdp k = Some (Inr res)"
  shows "\<exists>v. float_pi_loop mdp k (float_pi_init mdp) = Some (Inr v)
           \<and> float_optimal_policy res = fpi_policy v"
  using assms
  by (auto simp: float_policy_iteration_def float_make_result_def
      split: option.splits sum.splits)

lemma float_policy_iteration_result:
  assumes "float_policy_iteration mdp k = Some (Inr res)"
    and "st \<in> set (keys (states mdp))"
  shows "\<exists>a. float_optimal_policy res st = Some (Some a)"
proof -
  from float_policy_iteration_Inr [OF assms(1)] obtain v where
    v: "float_pi_loop mdp k (float_pi_init mdp) = Some (Inr v)"
    and r: "float_optimal_policy res = fpi_policy v"
    by blast
  have "\<forall>st\<in>set (keys (states mdp)). \<exists>a. fpi_policy (float_pi_init mdp) st = Some (Some a)"
    by (simp add: float_pi_init_policy)
  with float_pi_loop_Inr [OF v] have
    "\<forall>st\<in>set (keys (states mdp)). \<exists>a. fpi_policy v st = Some (Some a)" by blast
  with assms(2) r show ?thesis by simp
qed

subsection \<open>Float runs on the one-cell maze\<close>

lemma float_one_cell_expected_utility:
  "U (0, 0) = Some u \<Longrightarrow>
   float_get_expected_utility (one_cell_maze r gamma) (0, 0) a U
   = Inr (fl_add (fl_add (fl_add (Finite 0) (fl_mul (Finite (8 / 10)) u))
                    (fl_mul (Finite (1 / 10)) u))
            (fl_mul (Finite (1 / 10)) u))"
  by (cases a)
    (simp_all add: float_get_expected_utility_def one_cell_maze_def getitem_def keys_def
      float_expected_utility_step_def lookup_def transition_model_def)

lemma float_one_cell_expected_utility_Finite:
  assumes "U (0, 0) = Some (Finite x)" and "\<bar>x\<bar> \<le> 10 ^ 308"
  shows "float_get_expected_utility (one_cell_maze r gamma) (0, 0) a U = Inr (Finite x)"
proof -
  have t: "(10 :: real) ^ 308 < overflow_threshold"
    by (simp add: overflow_threshold_def)
  have f: "float_of y = Finite y" if "\<bar>y\<bar> \<le> 10 ^ 308" for y
    using that t by (simp add: float_of_def abs_le_iff)
  have 1: "float_of (8 / 10 * x) = Finite (8 / 10 * x)"
    and 2: "float_of (1 / 10 * x) = Finite (1 / 10 * x)"
    and 3: "float_of (8 / 10 * x + 1 / 10 * x) = Finite (8 / 10 * x + 1 / 10 * x)"
    and 4: "float_of (8 / 10 * x + 1 / 10 * x + 1 / 10 * x) = Finite x"
    using assms(2) by (simp_all add: f abs_le_iff)
  show ?thesis
      unfolding float_one_cell_expected_utility [where U = U, OF assms(1)]
    using 1 2 3 4 by simp
qed

lemma float_one_cell_expected_utility_NegInf:
  assumes "U (0, 0) = Some NegInf"
  shows "float_get_expected_utility (one_cell_maze r gamma) (0, 0) a U = Inr NegInf"
  unfolding float_one_cell_expected_utility [where U = U, OF assms]
  by (simp add: signed_inf_def)

lemma float_one_cell_best_action_Finite:
  assumes "U (0, 0) = Some (Finite x)" and "\<bar>x\<bar> \<le> 10 ^ 308"
  shows "float_best_action_loop (one_cell_maze r gamma) (0, 0) U
     [(UP, x1), (DOWN, x2), (LEFT, x3), (RIGHT, x4)] = Inr (Finite x, Some UP)"
  by (simp add: float_best_action_loop_def keys_def float_best_action_step_def
      float_one_cell_expected_utility_Finite [where U = U, OF assms])

lemma float_one_cell_best_action_NegInf:
  assumes "U (0, 0) = Some NegInf"
  shows "float_best_action_loop (one_cell_maze r gamma) (0, 0) U
     [(UP, x1), (DOWN, x2), (LEFT, x3), (RIGHT, x4)] = Inr (NegInf, None)"
  by (simp add: float_best_action_loop_def keys_def float_best_action_step_def
      float_one_cell_expected_utility_NegInf [where U = U, OF assms])

lemma float_one_cell_bellman_Finite:
  assumes "U (0, 0) = Some (Finite x)" and "\<bar>x\<bar> \<le> 10 ^ 308"
  shows "float_bellman_equation (one_cell_maze r gamma) (0, 0) U
         = Inr (fl_add (Finite r) (fl_mul (Finite gamma) (Finite x)), Some UP)"
proof -
  from one_cell_getitem [of r gamma] obtain x1 x2 x3 x4 where
    "getitem (states (one_cell_maze r gamma)) (0, 0)
      = Inr [(UP, x1), (DOWN, x2), (LEFT, x3), (RIGHT, x4)]" by blast
  then show ?thesis
    by (simp add: float_bellman_equation_def one_cell_reward
        float_one_cell_best_action_Finite [where U = U, OF assms] one_cell_fields)
qed

lemma float_one_cell_bellman_NegInf:
  assumes "U (0, 0) = Some NegInf"
  shows "float_bellman_equation (one_cell_maze r gamma) (0, 0) U
         = Inr (fl_add (Finite r) (fl_mul (Finite gamma) NegInf), None)"
proof -
  from one_cell_getitem [of r gamma] obtain x1 x2 x3 x4 where
    "getitem (states (one_cell_maze r gamma)) (0, 0)
      = Inr [(UP, x1), (DOWN, x2), (LEFT, x3), (RIGHT, x4)]" by blast
  then show ?thesis
    by (simp add: float_bellman_equation_def one_cell_reward
        float_one_cell_best_action_NegInf [where U = U, OF assms] one_cell_fields)
qed

lemma float_one_cell_vi_init:
  "float_vi_init (one_cell_maze r gamma)
   = \<lparr>fvi_current_utilities = Map.empty, fvi_new_utilities = [(0, 0) \<mapsto> Finite 0],
      fvi_all_iteration_utilities = [(0, 0) \<mapsto> []], fvi_optimal_policy = [(0, 0) \<mapsto> None]\<rparr>"
  by (simp add: float_vi_init_def keys_one_cell)

lemma float_one_cell_vi_body_Finite:
  assumes "gamma \<noteq> 0" and "\<bar>x\<bar> \<le> 10 ^ 308"
  shows "float_vi_body (one_cell_maze r gamma) max_error
           \<lparr>fvi_current_utilities = c, fvi_new_utilities = [(0, 0) \<mapsto> Finite x],
            fvi_all_iteration_utilities = [(0, 0) \<mapsto> h], fvi_optimal_policy = [(0, 0) \<mapsto> p]\<rparr>
         = Inr (\<lparr>fvi_current_utilities = c ++ [(0, 0) \<mapsto> Finite x],
                 fvi_new_utilities
                   = [(0, 0) \<mapsto> fl_add (Finite r) (fl_mul (Finite gamma) (Finite x))],
                 fvi_all_iteration_utilities = [(0, 0) \<mapsto> h @ [Finite x]],
                 fvi_optimal_policy = [(0, 0) \<mapsto> Some UP]\<rparr>,
                py_max (Finite 0)
                  (fl_abs (fl_sub (fl_add (Finite r) (fl_mul (Finite gamma) (Finite x)))
                             (Finite x))),
                fl_less
                  (py_max (Finite 0)
                     (fl_abs (fl_sub (fl_add (Finite r) (fl_mul (Finite gamma) (Finite x)))
                                (Finite x))))
                  (fl_div (fl_mul (Finite max_error) (fl_sub (Finite 1) (Finite gamma))) gamma))"
proof -
  have k: "keys (states (one_cell_maze r gamma)) = [(0, 0)]" by (rule keys_one_cell)
  have g: "discount_factor (one_cell_maze r gamma) = gamma" by (simp add: one_cell_fields)
  have b: "float_bellman_equation (one_cell_maze r gamma) (0, 0) (c((0, 0) \<mapsto> Finite x))
         = Inr (fl_add (Finite r) (fl_mul (Finite gamma) (Finite x)), Some UP)"
    using assms(2) by (intro float_one_cell_bellman_Finite) simp_all
  show ?thesis
    using assms(1)
    by (simp add: float_vi_body_def k g Let_def float_vi_record_step_def lookup_def
        float_vi_sweep_step_def b del: fl_add.simps fl_mul.simps)
qed

lemma float_one_cell_vi_body_NegInf:
  assumes "gamma \<noteq> 0"
  shows "float_vi_body (one_cell_maze r gamma) max_error
           \<lparr>fvi_current_utilities = c, fvi_new_utilities = [(0, 0) \<mapsto> NegInf],
            fvi_all_iteration_utilities = [(0, 0) \<mapsto> h], fvi_optimal_policy = [(0, 0) \<mapsto> p]\<rparr>
         = Inr (\<lparr>fvi_current_utilities = c ++ [(0, 0) \<mapsto> NegInf],
                 fvi_new_utilities = [(0, 0) \<mapsto> fl_add (Finite r) (fl_mul (Finite gamma) NegInf)],
                 fvi_all_iteration_utilities = [(0, 0) \<mapsto> h @ [NegInf]],
                 fvi_optimal_policy = [(0, 0) \<mapsto> None]\<rparr>,
                py_max (Finite 0)
                  (fl_abs (fl_sub (fl_add (Finite r) (fl_mul (Finite gamma) NegInf)) NegInf)),
                fl_less
                  (py_max (Finite 0)
                     (fl_abs (fl_sub (fl_add (Finite r) (fl_mul (Finite gamma) NegInf)) NegInf)))
                  (fl_div (fl_mul (Finite max_error) (fl_sub (Finite 1) (Finite gamma))) gamma))"
proof -
  have k: "keys (states (one_cell_maze r gamma)) = [(0, 0)]" by (rule keys_one_cell)
  have g: "discount_factor (one_cell_maze r gamma) = gamma" by (simp add: one_cell_fields)
  have b: "float_bellman_equation (one_cell_maze r gamma) (0, 0) (c((0, 0) \<mapsto> NegInf))
         = Inr (fl_add (Finite r) (fl_mul (Finite gamma) NegInf), None)"
    by (intro float_one_cell_bellman_NegInf) simp
  show ?thesis
    using assms(1)
    by (simp add: float_vi_body_def k g Let_def float_vi_record_step_def lookup_def
        float_vi_sweep_step_def b del: fl_add.simps fl_mul.simps)
qed

lemma float_one_cell_overflow_run:
  "float_value_iteration (one_cell_maze (- (10 ^ 308)) (99 / 100)) 1
   = Some (Inr \<lparr>float_converged_utilities = [(0, 0) \<mapsto> NegInf],
                float_optimal_policy = [(0, 0) \<mapsto> None],
                float_num_iterations = 3,
                float_iteration_utilities
                  = [(0, 0) \<mapsto> [Finite 0, Finite (- (10 ^ 308)), NegInf]]\<rparr>)"
proof -
  have g: "(99 / 100 :: real) \<noteq> 0" by simp
  show ?thesis
    unfolding float_value_iteration_def float_one_cell_vi_init
    apply (subst float_vi_loop.simps)
    apply (simp add: float_one_cell_vi_body_Finite [OF g] float_of_def overflow_threshold_def
        fl_sub_def py_max_def)
    apply (subst float_vi_loop.simps)
    apply (simp add: float_one_cell_vi_body_Finite [OF g] float_of_def overflow_threshold_def
        fl_sub_def py_max_def signed_inf_def)
    apply (subst float_vi_loop.simps)
    apply (simp add: float_one_cell_vi_body_NegInf [OF g] float_of_def overflow_threshold_def
        fl_sub_def py_max_def signed_inf_def float_make_result_def one_cell_fields)
    done
qed

subsection \<open>Float runs on the two-cell maze\<close>


lemma keys_two_cell: "keys (states (two_cell_maze gamma)) = [(0, 0), (0, 1)]"
  by (simp add: two_cell_maze_def keys_def)

lemma two_cell_fields:
  "discount_factor (two_cell_maze gamma) = gamma"
  "start_state (two_cell_maze gamma) = (0, 0)"
  by (simp_all add: two_cell_maze_def)

lemma two_cell_keys_unique: "dict_keys_unique (two_cell_maze gamma)"
  by (simp add: dict_keys_unique_def two_cell_maze_def keys_def)

lemma two_cell_upd_twist:
  "(m((0 :: int, 1 :: int) := a))((0, 0) := b) = (m((0, 0) := b))((0, 1) := a)"
  by (simp add: fun_upd_twist)

lemma float_two_cell_expected_utility:
  assumes "U (0, 0) = Some (Finite x)" and "U (0, 1) = Some (Finite y)"
    and "\<bar>x\<bar> \<le> 100" and "\<bar>y\<bar> \<le> 100"
  shows "float_get_expected_utility (two_cell_maze gamma) (0, 0) UP U
           = Inr (Finite (9 / 10 * x + 1 / 10 * y))"
    and "float_get_expected_utility (two_cell_maze gamma) (0, 0) DOWN U
           = Inr (Finite (9 / 10 * x + 1 / 10 * y))"
    and "float_get_expected_utility (two_cell_maze gamma) (0, 0) LEFT U = Inr (Finite x)"
    and "float_get_expected_utility (two_cell_maze gamma) (0, 0) RIGHT U
           = Inr (Finite (8 / 10 * y + 2 / 10 * x))"
    and "float_get_expected_utility (two_cell_maze gamma) (0, 1) UP U
           = Inr (Finite (9 / 10 * y + 1 / 10 * x))"
    and "float_get_expected_utility (two_cell_maze gamma) (0, 1) DOWN U
           = Inr (Finite (9 / 10 * y + 1 / 10 * x))"
    and "float_get_expected_utility (two_cell_maze gamma) (0, 1) LEFT U
           = Inr (Finite (8 / 10 * x + 2 / 10 * y))"
    and "float_get_expected_utility (two_cell_maze gamma) (0, 1) RIGHT U = Inr (Finite y)"
proof -
  have f: "float_of z = Finite z" if "\<bar>z\<bar> \<le> 1000" for z
    using that by (rule float_of_small)
  have b: "\<bar>8 / 10 * x\<bar> \<le> 1000" "\<bar>1 / 10 * x\<bar> \<le> 1000"
    "\<bar>8 / 10 * y\<bar> \<le> 1000" "\<bar>1 / 10 * y\<bar> \<le> 1000"
    "\<bar>8 / 10 * x + 1 / 10 * x\<bar> \<le> 1000" "\<bar>8 / 10 * y + 1 / 10 * y\<bar> \<le> 1000"
    "\<bar>8 / 10 * x + 1 / 10 * y\<bar> \<le> 1000" "\<bar>8 / 10 * y + 1 / 10 * x\<bar> \<le> 1000"
    "\<bar>8 / 10 * x + 1 / 10 * x + 1 / 10 * y\<bar> \<le> 1000"
    "\<bar>8 / 10 * x + 1 / 10 * x + 1 / 10 * x\<bar> \<le> 1000"
    "\<bar>8 / 10 * y + 1 / 10 * x + 1 / 10 * x\<bar> \<le> 1000"
    "\<bar>8 / 10 * y + 1 / 10 * x + 1 / 10 * y\<bar> \<le> 1000"
    "\<bar>8 / 10 * x + 1 / 10 * y + 1 / 10 * y\<bar> \<le> 1000"
    "\<bar>8 / 10 * y + 1 / 10 * y + 1 / 10 * y\<bar> \<le> 1000"
    using assms(3,4) by (simp_all add: abs_le_iff)
  note fb = b [THEN f]
  note defs = float_get_expected_utility_def two_cell_maze_def getitem_def keys_def
    float_expected_utility_step_def lookup_def transition_model_def
  show "float_get_expected_utility (two_cell_maze gamma) (0, 0) UP U
           = Inr (Finite (9 / 10 * x + 1 / 10 * y))"
    using assms(1,2) fb by (simp add: defs)
  show "float_get_expected_utility (two_cell_maze gamma) (0, 0) DOWN U
           = Inr (Finite (9 / 10 * x + 1 / 10 * y))"
    using assms(1,2) fb by (simp add: defs)
  show "float_get_expected_utility (two_cell_maze gamma) (0, 0) LEFT U = Inr (Finite x)"
    using assms(1,2) fb by (simp add: defs)
  show "float_get_expected_utility (two_cell_maze gamma) (0, 0) RIGHT U
           = Inr (Finite (8 / 10 * y + 2 / 10 * x))"
    using assms(1,2) fb by (simp add: defs)
  show "float_get_expected_utility (two_cell_maze gamma) (0, 1) UP U
           = Inr (Finite (9 / 10 * y + 1 / 10 * x))"
    using assms(1,2) fb by (simp add: defs)
  show "float_get_expected_utility (two_cell_maze gamma) (0, 1) DOWN U
           = Inr (Finite (9 / 10 * y + 1 / 10 * x))"
    using assms(1,2) fb by (simp add: defs)
  show "float_get_expected_utility (two_cell_maze gamma) (0, 1) LEFT U
           = Inr (Finite (8 / 10 * x + 2 / 10 * y))"
    using assms(1,2) fb by (simp add: defs)
  show "float_get_expected_utility (two_cell_maze gamma) (0, 1) RIGHT U = Inr (Finite y)"
    using assms(1,2) fb by (simp add: defs)
qed

lemma two_cell_getitem:
  "\<exists>x1 x2 x3 x4. getitem (states (two_cell_maze gamma)) (0, 0)
      = Inr [(UP, x1), (DOWN, x2), (LEFT, x3), (RIGHT, x4)]"
  "\<exists>x1 x2 x3 x4. getitem (states (two_cell_maze gamma)) (0, 1)
      = Inr [(UP, x1), (DOWN, x2), (LEFT, x3), (RIGHT, x4)]"
  by (simp_all add: two_cell_maze_def getitem_def)

lemma two_cell_reward:
  "reward_function (two_cell_maze gamma) (0, 0) = Inr (Some 1)"
  "reward_function (two_cell_maze gamma) (0, 1) = Inr (Some (- 1))"
  by (simp_all add: reward_function_def two_cell_maze_def py_index_def)

lemma float_two_cell_bellman_first:
  assumes "U (0, 0) = Some (Finite 0)" and "U (0, 1) = Some (Finite 0)"
  shows "float_bellman_equation (two_cell_maze (1 / 2)) (0, 0) U = Inr (Finite 1, Some UP)"
    and "float_bellman_equation (two_cell_maze (1 / 2)) (0, 1) U = Inr (Finite (- 1), Some UP)"
proof -
  note eu = float_two_cell_expected_utility [where U = U, OF assms, simplified]
  from two_cell_getitem(1) [of "1 / 2"] obtain x1 x2 x3 x4 where
    "getitem (states (two_cell_maze (1 / 2))) (0, 0)
      = Inr [(UP, x1), (DOWN, x2), (LEFT, x3), (RIGHT, x4)]" by blast
  then show "float_bellman_equation (two_cell_maze (1 / 2)) (0, 0) U = Inr (Finite 1, Some UP)"
    by (simp add: float_bellman_equation_def two_cell_reward float_best_action_loop_def keys_def
        float_best_action_step_def eu two_cell_fields float_of_small)
  from two_cell_getitem(2) [of "1 / 2"] obtain y1 y2 y3 y4 where
    "getitem (states (two_cell_maze (1 / 2))) (0, 1)
      = Inr [(UP, y1), (DOWN, y2), (LEFT, y3), (RIGHT, y4)]" by blast
  then show "float_bellman_equation (two_cell_maze (1 / 2)) (0, 1) U
      = Inr (Finite (- 1), Some UP)"
    by (simp add: float_bellman_equation_def two_cell_reward float_best_action_loop_def keys_def
        float_best_action_step_def eu two_cell_fields float_of_small)
qed

lemma float_two_cell_bellman_second:
  assumes "U (0, 0) = Some (Finite 1)" and "U (0, 1) = Some (Finite (- 1))"
  shows "float_bellman_equation (two_cell_maze (1 / 2)) (0, 0) U
           = Inr (Finite (3 / 2), Some LEFT)"
    and "float_bellman_equation (two_cell_maze (1 / 2)) (0, 1) U
           = Inr (Finite (- (7 / 10)), Some LEFT)"
proof -
  note eu = float_two_cell_expected_utility [where U = U, OF assms, simplified]
  from two_cell_getitem(1) [of "1 / 2"] obtain x1 x2 x3 x4 where
    "getitem (states (two_cell_maze (1 / 2))) (0, 0)
      = Inr [(UP, x1), (DOWN, x2), (LEFT, x3), (RIGHT, x4)]" by blast
  then show "float_bellman_equation (two_cell_maze (1 / 2)) (0, 0) U
      = Inr (Finite (3 / 2), Some LEFT)"
    by (simp add: float_bellman_equation_def two_cell_reward float_best_action_loop_def keys_def
        float_best_action_step_def eu two_cell_fields float_of_small)
  from two_cell_getitem(2) [of "1 / 2"] obtain y1 y2 y3 y4 where
    "getitem (states (two_cell_maze (1 / 2))) (0, 1)
      = Inr [(UP, y1), (DOWN, y2), (LEFT, y3), (RIGHT, y4)]" by blast
  then show "float_bellman_equation (two_cell_maze (1 / 2)) (0, 1) U
      = Inr (Finite (- (7 / 10)), Some LEFT)"
    by (simp add: float_bellman_equation_def two_cell_reward float_best_action_loop_def keys_def
        float_best_action_step_def eu two_cell_fields float_of_small)
qed

lemma float_two_cell_vi_init:
  "float_vi_init (two_cell_maze gamma)
   = \<lparr>fvi_current_utilities = Map.empty,
      fvi_new_utilities = [(0, 0) \<mapsto> Finite 0, (0, 1) \<mapsto> Finite 0],
      fvi_all_iteration_utilities = [(0, 0) \<mapsto> [], (0, 1) \<mapsto> []],
      fvi_optimal_policy = [(0, 0) \<mapsto> None, (0, 1) \<mapsto> None]\<rparr>"
  by (simp add: float_vi_init_def keys_two_cell)

lemma float_two_cell_vi_body_first:
  "float_vi_body (two_cell_maze (1 / 2)) 1
      \<lparr>fvi_current_utilities = Map.empty,
       fvi_new_utilities = [(0, 0) \<mapsto> Finite 0, (0, 1) \<mapsto> Finite 0],
       fvi_all_iteration_utilities = [(0, 0) \<mapsto> [], (0, 1) \<mapsto> []],
       fvi_optimal_policy = [(0, 0) \<mapsto> None, (0, 1) \<mapsto> None]\<rparr>
   = Inr (\<lparr>fvi_current_utilities = [(0, 0) \<mapsto> Finite 0, (0, 1) \<mapsto> Finite 0],
           fvi_new_utilities = [(0, 0) \<mapsto> Finite 1, (0, 1) \<mapsto> Finite (- 1)],
           fvi_all_iteration_utilities = [(0, 0) \<mapsto> [Finite 0], (0, 1) \<mapsto> [Finite 0]],
           fvi_optimal_policy = [(0, 0) \<mapsto> Some UP, (0, 1) \<mapsto> Some UP]\<rparr>,
          Finite 1, False)"
  by (simp add: float_vi_body_def keys_two_cell two_cell_fields Let_def float_vi_record_step_def
      lookup_def float_vi_sweep_step_def float_two_cell_bellman_first two_cell_upd_twist
      py_max_def fl_sub_def float_of_small)

lemma float_two_cell_vi_body_second:
  "float_vi_body (two_cell_maze (1 / 2)) 1
      \<lparr>fvi_current_utilities = [(0, 0) \<mapsto> Finite 0, (0, 1) \<mapsto> Finite 0],
       fvi_new_utilities = [(0, 0) \<mapsto> Finite 1, (0, 1) \<mapsto> Finite (- 1)],
       fvi_all_iteration_utilities = [(0, 0) \<mapsto> [Finite 0], (0, 1) \<mapsto> [Finite 0]],
       fvi_optimal_policy = [(0, 0) \<mapsto> Some UP, (0, 1) \<mapsto> Some UP]\<rparr>
   = Inr (\<lparr>fvi_current_utilities = [(0, 0) \<mapsto> Finite 1, (0, 1) \<mapsto> Finite (- 1)],
           fvi_new_utilities = [(0, 0) \<mapsto> Finite (3 / 2), (0, 1) \<mapsto> Finite (- (7 / 10))],
           fvi_all_iteration_utilities
             = [(0, 0) \<mapsto> [Finite 0, Finite 1], (0, 1) \<mapsto> [Finite 0, Finite (- 1)]],
           fvi_optimal_policy = [(0, 0) \<mapsto> Some LEFT, (0, 1) \<mapsto> Some LEFT]\<rparr>,
          Finite (1 / 2), True)"
  by (simp add: float_vi_body_def keys_two_cell two_cell_fields Let_def float_vi_record_step_def
      lookup_def float_vi_sweep_step_def float_two_cell_bellman_second two_cell_upd_twist
      py_max_def fl_sub_def float_of_small)

lemma float_two_cell_value_iteration:
  "float_value_iteration (two_cell_maze (1 / 2)) 1
   = Some (Inr \<lparr>float_converged_utilities = [(0, 0) \<mapsto> Finite 1, (0, 1) \<mapsto> Finite (- 1)],
                float_optimal_policy = [(0, 0) \<mapsto> Some LEFT, (0, 1) \<mapsto> Some LEFT],
                float_num_iterations = 2,
                float_iteration_utilities
                  = [(0, 0) \<mapsto> [Finite 0, Finite 1], (0, 1) \<mapsto> [Finite 0, Finite (- 1)]]\<rparr>)"
  unfolding float_value_iteration_def float_two_cell_vi_init
  apply (subst float_vi_loop.simps)
  apply (simp only: float_two_cell_vi_body_first sum.case prod.case if_False)
  apply (subst float_vi_loop.simps)
  apply (simp only: float_two_cell_vi_body_second sum.case prod.case if_True)
  apply (simp add: float_make_result_def two_cell_fields)
  done

lemma float_two_cell_pi_init:
  "float_pi_init (two_cell_maze gamma)
   = \<lparr>fpi_current_utilities = [(0, 0) \<mapsto> Finite 0, (0, 1) \<mapsto> Finite 0],
      fpi_policy = [(0, 0) \<mapsto> Some UP, (0, 1) \<mapsto> Some UP],
      fpi_all_iteration_utilities = [(0, 0) \<mapsto> [Finite 0], (0, 1) \<mapsto> [Finite 0]],
      fpi_hasChanged = True, fpi_num_iterations = 0\<rparr>"
  by (simp add: float_pi_init_def keys_two_cell)

lemma float_two_cell_policy_evaluation_first:
  "float_policy_evaluation (two_cell_maze (1 / 2)) [(0, 0) \<mapsto> Some UP, (0, 1) \<mapsto> Some UP]
     [(0, 0) \<mapsto> Finite 0, (0, 1) \<mapsto> Finite 0] 1
   = Inr ([(0, 0) \<mapsto> Finite 1, (0, 1) \<mapsto> Finite (- 1)],
          [(0, 0) \<mapsto> [Finite 1], (0, 1) \<mapsto> [Finite (- 1)]])"
proof -
  note eu = float_two_cell_expected_utility
    [where U = "[(0, 0) \<mapsto> Finite 0, (0, 1) \<mapsto> Finite 0]" and x = 0 and y = 0, simplified]
  show ?thesis
    by (simp add: float_policy_evaluation_def keys_two_cell float_pe_init_step_def lookup_def
        float_pe_round_def float_pe_update_step_def float_pe_copy_step_def two_cell_reward
        float_policy_expected_utility_def eu two_cell_fields float_of_small two_cell_upd_twist)
qed

lemma float_two_cell_policy_evaluation_second:
  "float_policy_evaluation (two_cell_maze (1 / 2)) [(0, 0) \<mapsto> Some LEFT, (0, 1) \<mapsto> Some LEFT]
     [(0, 0) \<mapsto> Finite 1, (0, 1) \<mapsto> Finite (- 1)] 1
   = Inr ([(0, 0) \<mapsto> Finite (3 / 2), (0, 1) \<mapsto> Finite (- (7 / 10))],
          [(0, 0) \<mapsto> [Finite (3 / 2)], (0, 1) \<mapsto> [Finite (- (7 / 10))]])"
proof -
  note eu = float_two_cell_expected_utility
    [where U = "[(0, 0) \<mapsto> Finite 1, (0, 1) \<mapsto> Finite (- 1)]" and x = 1 and y = "- 1",
      simplified]
  show ?thesis
    by (simp add: float_policy_evaluation_def keys_two_cell float_pe_init_step_def lookup_def
        float_pe_round_def float_pe_update_step_def float_pe_copy_step_def two_cell_reward
        float_policy_expected_utility_def eu two_cell_fields float_of_small two_cell_upd_twist)
qed

lemma float_two_cell_policy_improvement_first:
  "float_policy_improvement (two_cell_maze (1 / 2)) [(0, 0) \<mapsto> Some UP, (0, 1) \<mapsto> Some UP]
     [(0, 0) \<mapsto> Finite 1, (0, 1) \<mapsto> Finite (- 1)]
   = Inr ([(0, 0) \<mapsto> Some LEFT, (0, 1) \<mapsto> Some LEFT], True)"
proof -
  note eu = float_two_cell_expected_utility
    [where U = "[(0, 0) \<mapsto> Finite 1, (0, 1) \<mapsto> Finite (- 1)]" and x = 1 and y = "- 1",
      simplified]
  from two_cell_getitem [of "1 / 2"] obtain x1 x2 x3 x4 y1 y2 y3 y4 where
    "getitem (states (two_cell_maze (1 / 2))) (0, 0)
      = Inr [(UP, x1), (DOWN, x2), (LEFT, x3), (RIGHT, x4)]"
    "getitem (states (two_cell_maze (1 / 2))) (0, 1)
      = Inr [(UP, y1), (DOWN, y2), (LEFT, y3), (RIGHT, y4)]" by blast
  then show ?thesis
    unfolding float_policy_improvement_def keys_two_cell
    by (simp add: float_policy_improvement_step_def float_best_action_loop_def keys_def
        float_best_action_step_def float_policy_expected_utility_def lookup_def eu
        two_cell_upd_twist)
qed

lemma float_two_cell_policy_improvement_second:
  "float_policy_improvement (two_cell_maze (1 / 2)) [(0, 0) \<mapsto> Some LEFT, (0, 1) \<mapsto> Some LEFT]
     [(0, 0) \<mapsto> Finite (3 / 2), (0, 1) \<mapsto> Finite (- (7 / 10))]
   = Inr ([(0, 0) \<mapsto> Some LEFT, (0, 1) \<mapsto> Some LEFT], False)"
proof -
  note eu = float_two_cell_expected_utility
    [where U = "[(0, 0) \<mapsto> Finite (3 / 2), (0, 1) \<mapsto> Finite (- (7 / 10))]"
      and x = "3 / 2" and y = "- (7 / 10)", simplified]
  from two_cell_getitem [of "1 / 2"] obtain x1 x2 x3 x4 y1 y2 y3 y4 where
    "getitem (states (two_cell_maze (1 / 2))) (0, 0)
      = Inr [(UP, x1), (DOWN, x2), (LEFT, x3), (RIGHT, x4)]"
    "getitem (states (two_cell_maze (1 / 2))) (0, 1)
      = Inr [(UP, y1), (DOWN, y2), (LEFT, y3), (RIGHT, y4)]" by blast
  then show ?thesis
    unfolding float_policy_improvement_def keys_two_cell
    by (simp add: float_policy_improvement_step_def float_best_action_loop_def keys_def
        float_best_action_step_def float_policy_expected_utility_def lookup_def eu
        two_cell_upd_twist)
qed

lemma float_two_cell_pi_loop:
  "float_pi_loop (two_cell_maze (1 / 2)) 1 (float_pi_init (two_cell_maze (1 / 2)))
   = Some (Inr \<lparr>fpi_current_utilities = [(0, 0) \<mapsto> Finite (3 / 2), (0, 1) \<mapsto> Finite (- (7 / 10))],
                fpi_policy = [(0, 0) \<mapsto> Some LEFT, (0, 1) \<mapsto> Some LEFT],
                fpi_all_iteration_utilities
                  = [(0, 0) \<mapsto> [Finite 0, Finite 1, Finite (3 / 2)],
                     (0, 1) \<mapsto> [Finite 0, Finite (- 1), Finite (- (7 / 10))]],
                fpi_hasChanged = False, fpi_num_iterations = 2\<rparr>)"
  unfolding float_two_cell_pi_init
  apply (subst float_pi_loop.simps)
  apply (simp add: float_pi_body_def float_two_cell_policy_evaluation_first
      float_two_cell_policy_improvement_first keys_two_cell float_pi_extend_step_def lookup_def
      two_cell_upd_twist)
  apply (subst float_pi_loop.simps)
  apply (simp add: float_pi_body_def float_two_cell_policy_evaluation_second
      float_two_cell_policy_improvement_second keys_two_cell float_pi_extend_step_def lookup_def
      two_cell_upd_twist)
  apply (subst float_pi_loop.simps)
  apply simp
  done

lemma float_two_cell_policy_iteration:
  "float_policy_iteration (two_cell_maze (1 / 2)) 1
   = Some (Inr \<lparr>float_converged_utilities
                  = [(0, 0) \<mapsto> Finite (3 / 2), (0, 1) \<mapsto> Finite (- (7 / 10))],
                float_optimal_policy = [(0, 0) \<mapsto> Some LEFT, (0, 1) \<mapsto> Some LEFT],
                float_num_iterations = 3,
                float_iteration_utilities
                  = [(0, 0) \<mapsto> [Finite 0, Finite 1, Finite (3 / 2)],
                     (0, 1) \<mapsto> [Finite 0, Finite (- 1), Finite (- (7 / 10))]]\<rparr>)"
  by (simp add: float_policy_iteration_def float_two_cell_pi_loop float_make_result_def
      two_cell_fields)

subsection \<open>The policy that the solvers return\<close>

lemma float_of_eq_Finite: "float_of w = Finite z \<Longrightarrow> z = w"
  by (simp add: float_of_def split: if_splits)

lemma fl_add_eq_Finite:
  "fl_add t z = Finite y \<Longrightarrow> \<exists>a b. t = Finite a \<and> z = Finite b \<and> y = a + b"
  by (cases t; cases z) (auto dest: float_of_eq_Finite)

lemma fl_mul_eq_Finite:
  "fl_mul (Finite p) u = Finite z \<Longrightarrow> \<exists>b. u = Finite b \<and> z = p * b"
  by (cases u) (auto simp: signed_inf_def dest: float_of_eq_Finite split: if_splits)

lemma float_utility_of_Finite:
  "float_utility_of U s = Finite c \<Longrightarrow> finite_utility_of U s = c"
  by (auto simp: float_utility_of_def finite_utility_of_def split: option.splits)

lemma float_sum_Finite:
  assumes "foldl (\<lambda>acc entry.
              fl_add acc (fl_mul (Finite (probability entry)) (float_utility_of U (next_state entry))))
             t outs = Finite x"
  shows "\<exists>acc. t = Finite acc
           \<and> x = acc + sum_list (map (\<lambda>entry. probability entry
                                        * finite_utility_of U (next_state entry)) outs)"
  using assms
proof (induction outs arbitrary: t)
  case Nil
  then show ?case by simp
next
  case (Cons e es)
  let ?t' = "fl_add t (fl_mul (Finite (probability e)) (float_utility_of U (next_state e)))"
  from Cons.prems have "foldl (\<lambda>acc entry.
              fl_add acc (fl_mul (Finite (probability entry)) (float_utility_of U (next_state entry))))
             ?t' es = Finite x" by simp
  from Cons.IH [OF this] obtain acc' where
    t': "?t' = Finite acc'"
    and x: "x = acc' + sum_list (map (\<lambda>entry. probability entry
                                        * finite_utility_of U (next_state entry)) es)"
    by blast
  from fl_add_eq_Finite [OF t'] obtain a b where
    a: "t = Finite a"
    and b: "fl_mul (Finite (probability e)) (float_utility_of U (next_state e)) = Finite b"
    and acc': "acc' = a + b" by blast
  from fl_mul_eq_Finite [OF b] obtain c where
    c: "float_utility_of U (next_state e) = Finite c" and bc: "b = probability e * c" by blast
  have "finite_utility_of U (next_state e) = c" by (rule float_utility_of_Finite [OF c])
  then show ?case using a x acc' bc by simp
qed

lemma float_spec_expected_utility_Finite:
  assumes "float_spec_expected_utility mdp U s a = Finite x"
  shows "x = spec_expected_utility mdp (finite_utility_of U) s a"
proof -
  from float_sum_Finite [OF assms [unfolded float_spec_expected_utility_def]]
  have "x = sum_list (map (\<lambda>entry. probability entry * finite_utility_of U (next_state entry))
                        (stored_outcomes mdp s a))" by simp
  then show ?thesis
    unfolding spec_expected_utility_def next_state_probability_def
    by (simp only: expected_utility_regrouped)
qed

text \<open>
  Where the float computation of an expected utility gives a finite number, it is the
  number that the embedding over the real numbers gives for the same finite utilities.
\<close>

lemma float_get_expected_utility_agrees:
  assumes "float_get_expected_utility mdp st a U = Inr (Finite x)"
    and "get_expected_utility mdp st a V = Inr v"
    and "dict_keys_unique mdp"
    and "\<And>s. utility_of V s = finite_utility_of U s"
  shows "x = v"
proof -
  from float_get_expected_utility_spec [OF assms(1,3)]
  have "float_spec_expected_utility mdp U st a = Finite x" by simp
  from float_spec_expected_utility_Finite [OF this]
  have "x = spec_expected_utility mdp (finite_utility_of U) st a" .
  moreover from get_expected_utility_spec [OF assms(2,3)]
  have "v = spec_expected_utility mdp (utility_of V) st a" .
  moreover have "utility_of V = finite_utility_of U" using assms(4) by (rule ext)
  ultimately show ?thesis by simp
qed



text \<open>
  Claim C10, as the code has it. When \<^verbatim>\<open>policy_iteration\<close> returns, its policy maps every
  state to an action: every entry starts as \<^verbatim>\<open>UP\<close>, and \<^verbatim>\<open>policy_improvement\<close> writes the best
  action only where its expected utility is greater than that of the current action, and
  the old entry elsewhere. When \<^verbatim>\<open>value_iteration\<close> returns, its policy has an entry for every
  state; the entry is \<^verbatim>\<open>None\<close> exactly when no action of the state has an expected utility,
  under the returned utilities, that is greater than \<^verbatim>\<open>-inf\<close>, and otherwise it is an action
  of the state's action map.
\<close>

theorem solver_policy_entries:
  assumes "st \<in> set (keys (states mdp))"
    and "dict_keys_unique mdp"
  shows "(float_policy_iteration mdp k = Some (Inr res')
            \<longrightarrow> (\<exists>a. float_optimal_policy res' st = Some (Some a)))
       \<and> (float_value_iteration mdp max_error = Some (Inr res)
            \<longrightarrow> (\<exists>b. float_optimal_policy res st = Some b
                  \<and> (b = None \<longleftrightarrow>
                       (\<forall>a\<in>set (available_actions mdp st).
                          \<not> fl_greater
                               (float_spec_expected_utility mdp (float_converged_utilities res) st a)
                               NegInf))
                  \<and> (\<forall>a. b = Some a \<longrightarrow> a \<in> set (available_actions mdp st))))"
proof (intro conjI impI)
  assume "float_policy_iteration mdp k = Some (Inr res')"
  from float_policy_iteration_result [OF this assms(1)]
  show "\<exists>a. float_optimal_policy res' st = Some (Some a)" .
next
  assume "float_value_iteration mdp max_error = Some (Inr res)"
  from float_value_iteration_result [OF this assms(1)] obtain u b where
    b: "float_bellman_equation mdp st (float_converged_utilities res) = Inr (u, b)"
    and p: "float_optimal_policy res st = Some b"
    by blast
  note e = float_policy_entry [OF b assms(2)]
  have 1: "b = None \<longleftrightarrow>
             (\<forall>a\<in>set (available_actions mdp st).
                \<not> fl_greater
                     (float_spec_expected_utility mdp (float_converged_utilities res) st a)
                     NegInf)"
  proof
    assume "b = None"
    with e(2) show "\<forall>a\<in>set (available_actions mdp st).
                \<not> fl_greater
                     (float_spec_expected_utility mdp (float_converged_utilities res) st a)
                     NegInf" by blast
  next
    assume n: "\<forall>a\<in>set (available_actions mdp st).
                \<not> fl_greater
                     (float_spec_expected_utility mdp (float_converged_utilities res) st a)
                     NegInf"
    show "b = None"
    proof (cases b)
      case None
      then show ?thesis .
    next
      case (Some a)
      with e(1) n show ?thesis by blast
    qed
  qed
  have 2: "\<forall>a. b = Some a \<longrightarrow> a \<in> set (available_actions mdp st)"
    using e(1) by blast
  show "\<exists>b. float_optimal_policy res st = Some b
          \<and> (b = None \<longleftrightarrow>
               (\<forall>a\<in>set (available_actions mdp st).
                  \<not> fl_greater
                       (float_spec_expected_utility mdp (float_converged_utilities res) st a)
                       NegInf))
          \<and> (\<forall>a. b = Some a \<longrightarrow> a \<in> set (available_actions mdp st))"
    using p 1 2 by blast
qed

theorem solver_policy_entries_witness:
  "(0, 0) \<in> set (keys (states (two_cell_maze (1 / 2))))
   \<and> dict_keys_unique (two_cell_maze (1 / 2))
   \<and> float_policy_iteration (two_cell_maze (1 / 2)) 1
     = Some (Inr \<lparr>float_converged_utilities
                    = [(0, 0) \<mapsto> Finite (3 / 2), (0, 1) \<mapsto> Finite (- (7 / 10))],
                  float_optimal_policy = [(0, 0) \<mapsto> Some LEFT, (0, 1) \<mapsto> Some LEFT],
                  float_num_iterations = 3,
                  float_iteration_utilities
                    = [(0, 0) \<mapsto> [Finite 0, Finite 1, Finite (3 / 2)],
                       (0, 1) \<mapsto> [Finite 0, Finite (- 1), Finite (- (7 / 10))]]\<rparr>)
   \<and> float_value_iteration (two_cell_maze (1 / 2)) 1
     = Some (Inr \<lparr>float_converged_utilities = [(0, 0) \<mapsto> Finite 1, (0, 1) \<mapsto> Finite (- 1)],
                  float_optimal_policy = [(0, 0) \<mapsto> Some LEFT, (0, 1) \<mapsto> Some LEFT],
                  float_num_iterations = 2,
                  float_iteration_utilities
                    = [(0, 0) \<mapsto> [Finite 0, Finite 1], (0, 1) \<mapsto> [Finite 0, Finite (- 1)]]\<rparr>)
   \<and> LEFT \<in> set (available_actions (two_cell_maze (1 / 2)) (0, 0))
   \<and> (\<exists>a\<in>set (available_actions (two_cell_maze (1 / 2)) (0, 0)).
         fl_greater
           (float_spec_expected_utility (two_cell_maze (1 / 2))
              [(0, 0) \<mapsto> Finite 1, (0, 1) \<mapsto> Finite (- 1)] (0, 0) a)
           NegInf)"
proof -
  have h1: "(0, 0) \<in> set (keys (states (two_cell_maze (1 / 2))))"
    by (simp add: keys_two_cell)
  have h2: "dict_keys_unique (two_cell_maze (1 / 2))" by (rule two_cell_keys_unique)
  note h3 = float_two_cell_policy_iteration
  note h4 = float_two_cell_value_iteration
  let ?r' = "\<lparr>float_converged_utilities
                    = [(0 :: int, 0 :: int) \<mapsto> Finite (3 / 2), (0, 1) \<mapsto> Finite (- (7 / 10))],
                  float_optimal_policy = [(0 :: int, 0 :: int) \<mapsto> Some LEFT, (0, 1) \<mapsto> Some LEFT],
                  float_num_iterations = 3,
                  float_iteration_utilities
                    = [(0 :: int, 0 :: int) \<mapsto> [Finite 0, Finite 1, Finite (3 / 2)],
                       (0, 1) \<mapsto> [Finite 0, Finite (- 1), Finite (- (7 / 10))]]\<rparr>"
  let ?r = "\<lparr>float_converged_utilities
                    = [(0 :: int, 0 :: int) \<mapsto> Finite 1, (0, 1) \<mapsto> Finite (- 1)],
                  float_optimal_policy = [(0 :: int, 0 :: int) \<mapsto> Some LEFT, (0, 1) \<mapsto> Some LEFT],
                  float_num_iterations = 2,
                  float_iteration_utilities
                    = [(0 :: int, 0 :: int) \<mapsto> [Finite 0, Finite 1],
                       (0, 1) \<mapsto> [Finite 0, Finite (- 1)]]\<rparr>"
  from solver_policy_entries [where st = "(0, 0)" and mdp = "two_cell_maze (1 / 2)" and k = 1
      and max_error = 1 and res = ?r and res' = ?r', OF h1 h2] h3 h4
  have "LEFT \<in> set (available_actions (two_cell_maze (1 / 2)) (0, 0))
   \<and> (\<exists>a\<in>set (available_actions (two_cell_maze (1 / 2)) (0, 0)).
         fl_greater
           (float_spec_expected_utility (two_cell_maze (1 / 2))
              [(0, 0) \<mapsto> Finite 1, (0, 1) \<mapsto> Finite (- 1)] (0, 0) a)
           NegInf)"
    by simp
  then show ?thesis using h1 h2 h3 h4 by blast
qed

text \<open>
  The claim as written fails. On the grid \<^verbatim>\<open>[[-1e308]]\<close> with discount 0.99 and
  \<^verbatim>\<open>max_error = 1\<close> the one state has its four actions, the second sweep of \<^verbatim>\<open>value_iteration\<close>
  computes \<open>-10\<^sup>3\<^sup>0\<^sup>8 + 0.99 \<cdot> (-10\<^sup>3\<^sup>0\<^sup>8)\<close>, which overflows to \<^verbatim>\<open>-inf\<close>, the third sweep finds every
  expected utility to be \<^verbatim>\<open>-inf\<close>, not greater than the initial bound, and a residual of
  \<^verbatim>\<open>max(0, nan) = 0\<close>, and the call returns a policy that maps the state to \<^verbatim>\<open>None\<close>.
\<close>

theorem value_iteration_overflow_counterexample:
  "Maze_init [[Some (- (10 ^ 308))]] (0, 0) (99 / 100)
     = Inr (one_cell_maze (- (10 ^ 308)) (99 / 100))
   \<and> available_actions (one_cell_maze (- (10 ^ 308)) (99 / 100)) (0, 0) = [UP, DOWN, LEFT, RIGHT]
   \<and> float_value_iteration (one_cell_maze (- (10 ^ 308)) (99 / 100)) 1
     = Some (Inr \<lparr>float_converged_utilities = [(0, 0) \<mapsto> NegInf],
                  float_optimal_policy = [(0, 0) \<mapsto> None],
                  float_num_iterations = 3,
                  float_iteration_utilities
                    = [(0, 0) \<mapsto> [Finite 0, Finite (- (10 ^ 308)), NegInf]]\<rparr>)"
proof -
  have "available_actions (one_cell_maze (- (10 ^ 308)) (99 / 100)) (0, 0)
          = [UP, DOWN, LEFT, RIGHT]"
    by (simp add: available_actions_def one_cell_maze_def keys_def)
  then show ?thesis
    using Maze_init_one_cell [of "- (10 ^ 308)" "99 / 100"] float_one_cell_overflow_run
    by simp
qed

end
